theory Spec2Isabelle
  imports Complex_Main "HOL-Library.AList"
begin

section \<open>JavaScript values and objects\<close>

text \<open>
  The graph utilities are written against plain JavaScript objects: they test whether a key
  is present (\<^verbatim>\<open>'id' in element\<close>), copy keys with object spread and
  \<^verbatim>\<open>Object.assign\<close>, and convert values with \<^verbatim>\<open>toString\<close> and template
  literals. The model therefore keeps objects dynamic: an object is an association list from
  key to value, in insertion order. Numbers are restricted to the integers (identifiers and
  flags are all the object layer needs); the geometry functions further down use the reals.
  Object identity is not modelled: \<^verbatim>\<open>===\<close> is equality of values, which agrees with
  JavaScript whenever one side is a primitive.
\<close>

datatype jsval =
    JUndefined
  | JNull
  | JBool bool
  | JNum int
  | JStr string
  | JArr "jsval list"
  | JObj "(string \<times> jsval) list"

type_synonym obj = "(string \<times> jsval) list"

datatype fault = TypeError

text \<open>Property read \<^verbatim>\<open>o.k\<close>: the value stored under the key, \<^verbatim>\<open>undefined\<close> when absent.\<close>

definition field :: "obj \<Rightarrow> string \<Rightarrow> jsval" where
  "field ob k = (case map_of ob k of None \<Rightarrow> JUndefined | Some v \<Rightarrow> v)"

text \<open>\<^verbatim>\<open>k in o\<close>.\<close>

definition has :: "obj \<Rightarrow> string \<Rightarrow> bool" where
  "has ob k = (k \<in> set (map fst ob))"

text \<open>
  \<^verbatim>\<open>Object.assign(target, source)\<close> and object spread: every own key of the source is
  written to the target in the source's order; a key the target already has keeps its place,
  a new key is appended. A key whose value is \<^verbatim>\<open>undefined\<close> is copied like any other.
\<close>

definition assign :: "obj \<Rightarrow> obj \<Rightarrow> obj" where
  "assign target source = foldl (\<lambda>t kv. AList.update (fst kv) (snd kv) t) target source"

text \<open>A JavaScript object has each key once.\<close>

definition wf_obj :: "obj \<Rightarrow> bool" where
  "wf_obj ob = distinct (map fst ob)"

text \<open>\<^verbatim>\<open>!v\<close>: the falsy values.\<close>

fun falsy :: "jsval \<Rightarrow> bool" where
  "falsy JUndefined = True"
| "falsy JNull = True"
| "falsy (JBool b) = (\<not> b)"
| "falsy (JNum n) = (n = 0)"
| "falsy (JStr s) = (s = [])"
| "falsy (JArr xs) = False"
| "falsy (JObj ob) = False"

text \<open>\<^verbatim>\<open>null\<close> and \<^verbatim>\<open>undefined\<close>.\<close>

definition is_nullish :: "jsval \<Rightarrow> bool" where
  "is_nullish v = (v = JUndefined \<or> v = JNull)"

text \<open>\<^verbatim>\<open>a ?? b\<close>.\<close>

fun nullish :: "jsval \<Rightarrow> jsval \<Rightarrow> jsval" where
  "nullish JUndefined b = b"
| "nullish JNull b = b"
| "nullish a b = a"

text \<open>\<^verbatim>\<open>a === b\<close>.\<close>

definition strict_eq :: "jsval \<Rightarrow> jsval \<Rightarrow> bool" where
  "strict_eq a b = (a = b)"

text \<open>
  Decimal digits of a number, as \<^verbatim>\<open>String(n)\<close> prints an integer (of absolute value
  below \<^verbatim>\<open>1e21\<close>; from there on JavaScript switches to exponent notation).
\<close>

fun show_nat :: "nat \<Rightarrow> string" where
  "show_nat n =
     (if n < 10 then [''0123456789'' ! n] else show_nat (n div 10) @ [''0123456789'' ! (n mod 10)])"

declare show_nat.simps [simp del]

definition show_int :: "int \<Rightarrow> string" where
  "show_int i = (if i < 0 then CHR ''-'' # show_nat (nat (- i)) else show_nat (nat i))"

fun join :: "string \<Rightarrow> string list \<Rightarrow> string" where
  "join sep [] = []"
| "join sep [x] = x"
| "join sep (x # y # ys) = x @ sep @ join sep (y # ys)"

text \<open>
  The string conversion of a template literal \<^verbatim>\<open>`${v}`\<close>. An array prints its elements
  separated by commas, with \<^verbatim>\<open>null\<close> and \<^verbatim>\<open>undefined\<close> elements printed empty.
\<close>

fun toStr :: "jsval \<Rightarrow> string" where
  "toStr JUndefined = ''undefined''"
| "toStr JNull = ''null''"
| "toStr (JBool b) = (if b then ''true'' else ''false'')"
| "toStr (JNum n) = show_int n"
| "toStr (JStr s) = s"
| "toStr (JArr xs) =
     join '','' (map (\<lambda>x. if x = JUndefined \<or> x = JNull then [] else toStr x) xs)"
| "toStr (JObj ob) = ''[object Object]''"

text \<open>The method call \<^verbatim>\<open>v.toString()\<close>: a TypeError on \<^verbatim>\<open>undefined\<close> and \<^verbatim>\<open>null\<close>.\<close>

definition toString :: "jsval \<Rightarrow> fault + string" where
  "toString v = (if v = JUndefined \<or> v = JNull then Inl TypeError else Inr (toStr v))"

text \<open>\<^verbatim>\<open>v?.toString()\<close>.\<close>

definition opt_toString :: "jsval \<Rightarrow> jsval" where
  "opt_toString v = (if v = JUndefined \<or> v = JNull then JUndefined else JStr (toStr v))"

section \<open>Element predicates\<close>

text \<open>
  \<^verbatim>\<open>isEdge\<close> and \<^verbatim>\<open>isNode\<close> on an element of the collection. The elements of a
  collection are objects, so the guards \<^verbatim>\<open>element && typeof element === 'object'\<close> hold.
\<close>

definition isEdge :: "obj \<Rightarrow> bool" where
  "isEdge element = (has element ''id'' \<and> has element ''source'' \<and> has element ''target'')"

definition isNode :: "obj \<Rightarrow> bool" where
  "isNode element = (has element ''id'' \<and> has element ''position'' \<and> \<not> isEdge element)"

section \<open>Edge identifiers\<close>

definition getEdgeId :: "obj \<Rightarrow> string" where
  "getEdgeId c =
     ''vueflow__edge-'' @ toStr (field c ''source'')
       @ toStr (nullish (field c ''sourceHandle'') (JStr ''''))
       @ ''-'' @ toStr (field c ''target'')
       @ toStr (nullish (field c ''targetHandle'') (JStr ''''))"

text \<open>
  The two halves of the identifier, left and right of the separator \<^verbatim>\<open>-\<close> that the
  template puts between them: the source followed by its handle, the target followed by its
  handle.
\<close>

definition source_part :: "obj \<Rightarrow> string" where
  "source_part c = toStr (field c ''source'') @ toStr (nullish (field c ''sourceHandle'') (JStr ''''))"

definition target_part :: "obj \<Rightarrow> string" where
  "target_part c = toStr (field c ''target'') @ toStr (nullish (field c ''targetHandle'') (JStr ''''))"

text \<open>
  A \<^verbatim>\<open>Connection\<close>: source and target are strings, each handle is a string,
  \<^verbatim>\<open>null\<close> or \<^verbatim>\<open>undefined\<close> (or absent). \<open>conn_tuple\<close> reads the connection as
  the 4-tuple (source, target, optional sourceHandle, optional targetHandle).
\<close>

fun is_str :: "jsval \<Rightarrow> bool" where
  "is_str (JStr s) = True"
| "is_str v = False"

fun is_handle :: "jsval \<Rightarrow> bool" where
  "is_handle JUndefined = True"
| "is_handle JNull = True"
| "is_handle (JStr s) = True"
| "is_handle v = False"

fun handle_of :: "jsval \<Rightarrow> string option" where
  "handle_of (JStr s) = Some s"
| "handle_of v = None"

definition isConnection :: "obj \<Rightarrow> bool" where
  "isConnection c =
     (is_str (field c ''source'') \<and> is_str (field c ''target'')
      \<and> is_handle (field c ''sourceHandle'') \<and> is_handle (field c ''targetHandle''))"

definition conn_tuple :: "obj \<Rightarrow> jsval \<times> jsval \<times> string option \<times> string option" where
  "conn_tuple c =
     (field c ''source'', field c ''target'',
      handle_of (field c ''sourceHandle''), handle_of (field c ''targetHandle''))"

section \<open>Graph normalizer\<close>

text \<open>
  \<^verbatim>\<open>isDef\<close> is imported from the utilities' index and \<^verbatim>\<open>markRaw\<close> from the
  reactivity library. \<^verbatim>\<open>markRaw\<close> returns its argument and is left out. \<^verbatim>\<open>isDef\<close>
  is a parameter of every function that calls it; the concrete examples use
  \<open>isDef_typeof\<close>, the test \<^verbatim>\<open>typeof val !== 'undefined'\<close>.
\<close>

definition isDef_typeof :: "jsval \<Rightarrow> bool" where
  "isDef_typeof v = (v \<noteq> JUndefined)"

text \<open>\<^verbatim>\<open>o?.k\<close> on an optional object.\<close>

definition opt_field :: "obj option \<Rightarrow> string \<Rightarrow> jsval" where
  "opt_field ob k = (case ob of None \<Rightarrow> JUndefined | Some x \<Rightarrow> field x k)"

text \<open>
  The keys that \<^verbatim>\<open>{...v}\<close> copies: the keys of an object, the indices of an array or of
  a string, nothing for the other primitives. (JavaScript enumerates index keys before the
  others; the model keeps insertion order, on which no property read depends.)
\<close>

fun spread :: "jsval \<Rightarrow> obj" where
  "spread (JObj ob) = ob"
| "spread (JArr xs) = zip (map show_nat [0..<length xs]) xs"
| "spread (JStr s) = zip (map show_nat [0..<length s]) (map (\<lambda>c. JStr [c]) s)"
| "spread v = []"

definition parseNode :: "(jsval \<Rightarrow> bool) \<Rightarrow> obj \<Rightarrow> obj option \<Rightarrow> string option \<Rightarrow> fault + obj" where
  "parseNode isDef node existingNode parentNode =
     (case toString (field node ''id'') of
        Inl e \<Rightarrow> Inl e
      | Inr i \<Rightarrow>
          let initialState =
            [(''id'', JStr i),
             (''type'', nullish (field node ''type'') (JStr ''default'')),
             (''dimensions'', JObj [(''width'', JNum 0), (''height'', JNum 0)]),
             (''handleBounds'', JObj [(''source'', JArr []), (''target'', JArr [])]),
             (''computedPosition'', JObj (assign [(''z'', JNum 0)] (spread (field node ''position'')))),
             (''draggable'', JUndefined),
             (''selectable'', JUndefined),
             (''connectable'', JUndefined),
             (''focusable'', JUndefined),
             (''selected'', JBool False),
             (''dragging'', JBool False),
             (''resizing'', JBool False),
             (''initialized'', JBool False),
             (''isParent'', JBool False),
             (''position'', JObj [(''x'', JNum 0), (''y'', JNum 0)]),
             (''data'', if isDef (field node ''data'') then field node ''data'' else JObj []),
             (''events'', if isDef (field node ''events'') then field node ''events'' else JObj [])]
          in Inr (assign
                   (assign (case existingNode of None \<Rightarrow> initialState | Some ex \<Rightarrow> ex) node)
                   [(''id'', JStr i),
                    (''parentNode'', case parentNode of None \<Rightarrow> JUndefined | Some p \<Rightarrow> JStr p)]))"

definition parseEdge :: "(jsval \<Rightarrow> bool) \<Rightarrow> obj \<Rightarrow> obj option \<Rightarrow> obj option \<Rightarrow> fault + obj" where
  "parseEdge isDef edge existingEdge defaultEdgeOptions =
     (case toString (field edge ''id'') of
        Inl e \<Rightarrow> Inl e
      | Inr i \<Rightarrow>
     (case toString (field edge ''source'') of
        Inl e \<Rightarrow> Inl e
      | Inr s \<Rightarrow>
     (case toString (field edge ''target'') of
        Inl e \<Rightarrow> Inl e
      | Inr t \<Rightarrow>
          let initialState = assign
            [(''id'', JStr i),
             (''type'', nullish (nullish (field edge ''type'') (opt_field existingEdge ''type''))
                          (JStr ''default'')),
             (''source'', JStr s),
             (''target'', JStr t),
             (''sourceHandle'', opt_toString (field edge ''sourceHandle'')),
             (''targetHandle'', opt_toString (field edge ''targetHandle'')),
             (''updatable'', nullish (field edge ''updatable'') (opt_field defaultEdgeOptions ''updatable'')),
             (''selectable'', nullish (field edge ''selectable'') (opt_field defaultEdgeOptions ''selectable'')),
             (''focusable'', nullish (field edge ''focusable'') (opt_field defaultEdgeOptions ''focusable'')),
             (''data'', if isDef (field edge ''data'') then field edge ''data'' else JObj []),
             (''events'', if isDef (field edge ''events'') then field edge ''events'' else JObj []),
             (''label'', nullish (field edge ''label'') (JStr [])),
             (''interactionWidth'',
                nullish (field edge ''interactionWidth'') (opt_field defaultEdgeOptions ''interactionWidth''))]
            (case defaultEdgeOptions of None \<Rightarrow> [] | Some d \<Rightarrow> d)
          in Inr (assign
                   (assign (case existingEdge of None \<Rightarrow> initialState | Some ex \<Rightarrow> ex) edge)
                   [(''id'', JStr i)]))))"

section \<open>Connection test and the edge mutation protocol\<close>

text \<open>The callback of \<^verbatim>\<open>connectionExists\<close>.\<close>

definition connection_matches :: "obj \<Rightarrow> obj \<Rightarrow> bool" where
  "connection_matches edge el =
     (isEdge el
      \<and> strict_eq (field el ''source'') (field edge ''source'')
      \<and> strict_eq (field el ''target'') (field edge ''target'')
      \<and> (strict_eq (field el ''sourceHandle'') (field edge ''sourceHandle'')
           \<or> (falsy (field el ''sourceHandle'') \<and> falsy (field edge ''sourceHandle'')))
      \<and> (strict_eq (field el ''targetHandle'') (field edge ''targetHandle'')
           \<or> (falsy (field el ''targetHandle'') \<and> falsy (field edge ''targetHandle''))))"

definition connectionExists :: "obj \<Rightarrow> obj list \<Rightarrow> bool" where
  "connectionExists edge elements = list_ex (connection_matches edge) elements"

text \<open>
  What a call leaves behind: the messages passed to \<^verbatim>\<open>warn\<close>, the caller's array after
  the call (\<^verbatim>\<open>push\<close> and \<^verbatim>\<open>splice\<close> change it in place), and the returned array.
\<close>

record outcome =
  warned :: "string list"
  collection :: "obj list"
  returned :: "obj list"

definition addEdge :: "(jsval \<Rightarrow> bool) \<Rightarrow> obj \<Rightarrow> obj list \<Rightarrow> obj option \<Rightarrow> fault + outcome" where
  "addEdge isDef edgeParams elements defaults =
     (if falsy (field edgeParams ''source'') \<or> falsy (field edgeParams ''target'')
      then Inr \<lparr>warned = [''Can't create edge. An edge needs a source and a target.''],
                collection = elements, returned = elements\<rparr>
      else
        (case parseEdge isDef
                (if isEdge edgeParams then assign [] edgeParams
                 else assign (assign [] edgeParams) [(''id'', JStr (getEdgeId edgeParams))])
                None defaults of
           Inl e \<Rightarrow> Inl e
         | Inr edge \<Rightarrow>
             if connectionExists edge elements
             then Inr \<lparr>warned = [], collection = elements, returned = elements\<rparr>
             else Inr \<lparr>warned = [], collection = elements @ [edge], returned = elements @ [edge]\<rparr>))"

text \<open>
  \<^verbatim>\<open>DefaultEdgeOptions\<close> is an edge description without the connection fields; the
  predicate below says that the defaults carry no handle.
\<close>

definition defaults_omit_handles :: "obj option \<Rightarrow> bool" where
  "defaults_omit_handles defaults =
     (case defaults of None \<Rightarrow> True
      | Some d \<Rightarrow> \<not> has d ''sourceHandle'' \<and> \<not> has d ''targetHandle'')"

text \<open>
  \<^verbatim>\<open>elements.indexOf(x)\<close>, -1 when absent, and \<^verbatim>\<open>elements.splice(start, 1, item)\<close>
  with the clamping of the start index that \<^verbatim>\<open>splice\<close> does.
\<close>

fun indexOf :: "'a \<Rightarrow> 'a list \<Rightarrow> int" where
  "indexOf x [] = - 1"
| "indexOf x (y # ys) = (if y = x then 0 else (let r = indexOf x ys in if r < 0 then - 1 else r + 1))"

definition splice1 :: "int \<Rightarrow> 'a \<Rightarrow> 'a list \<Rightarrow> 'a list" where
  "splice1 start item xs =
     (let n = int (length xs);
          k = nat (if start < 0 then max (n + start) 0 else min start n)
      in take k xs @ [item] @ drop (Suc k) xs)"

definition updateEdge :: "obj \<Rightarrow> obj \<Rightarrow> obj list \<Rightarrow> outcome" where
  "updateEdge oldEdge newConnection elements =
     (if falsy (field newConnection ''source'') \<or> falsy (field newConnection ''target'')
      then \<lparr>warned = [''Can't create new edge. An edge needs a source and a target.''],
            collection = elements, returned = elements\<rparr>
      else
        (case find (\<lambda>e. isEdge e \<and> strict_eq (field e ''id'') (field oldEdge ''id'')) elements of
           None \<Rightarrow>
             \<lparr>warned = [''The old edge with id='' @ toStr (field oldEdge ''id'') @ '' does not exist.''],
              collection = elements, returned = elements\<rparr>
         | Some foundEdge \<Rightarrow>
             let edge = assign (assign [] oldEdge)
                   [(''id'', JStr (getEdgeId newConnection)),
                    (''source'', field newConnection ''source''),
                    (''target'', field newConnection ''target''),
                    (''sourceHandle'', field newConnection ''sourceHandle''),
                    (''targetHandle'', field newConnection ''targetHandle'')];
                 spliced = splice1 (indexOf foundEdge elements) edge elements
             in \<lparr>warned = [], collection = spliced,
                 returned = filter (\<lambda>e. \<not> strict_eq (field e ''id'') (field oldEdge ''id'')) spliced\<rparr>))"

section \<open>Graph query layer\<close>

text \<open>The subject of a query: \<^verbatim>\<open>Node | { id: string } | string\<close>.\<close>

datatype nodeOrId = ById string | ByNode obj

text \<open>\<^verbatim>\<open>typeof nodeOrId === 'string' ? nodeOrId : nodeOrId.id\<close>.\<close>

fun subject_id :: "nodeOrId \<Rightarrow> jsval" where
  "subject_id (ById s) = JStr s"
| "subject_id (ByNode n) = field n ''id''"

definition getConnectedElements :: "nodeOrId \<Rightarrow> obj list \<Rightarrow> obj list \<Rightarrow> string \<Rightarrow> obj list" where
  "getConnectedElements nodeOrId nodes edges dir =
     (let id = subject_id nodeOrId;
          origin = (if dir = ''source'' then ''target'' else ''source'');
          connectedIds = foldl (\<lambda>ids edge. if strict_eq (field edge origin) id
                                             then List.insert (field edge dir) ids else ids) [] edges
      in filter (\<lambda>n. field n ''id'' \<in> set connectedIds) nodes)"

text \<open>
  The two call shapes of \<^verbatim>\<open>getOutgoers\<close> and \<^verbatim>\<open>getIncomers\<close>, told apart by the
  number of arguments. An entry of the result is a node or \<^verbatim>\<open>undefined\<close> (\<open>None\<close>),
  which is what \<^verbatim>\<open>Array.prototype.find\<close> returns when nothing matches.
\<close>

datatype query_args = Args3 nodeOrId "obj list" "obj list" | Args2 nodeOrId "obj list"

fun getOutgoers :: "query_args \<Rightarrow> obj option list" where
  "getOutgoers (Args3 nodeOrId nodes edges) = map Some (getConnectedElements nodeOrId nodes edges ''target'')"
| "getOutgoers (Args2 nodeOrId elements) =
     (let nodeId = subject_id nodeOrId;
          outgoers = filter (\<lambda>el. isEdge el \<and> strict_eq (field el ''source'') nodeId) elements
      in map (\<lambda>edge. find (\<lambda>el. isNode el \<and> strict_eq (field el ''id'') (field edge ''target'')) elements)
             outgoers)"

fun getIncomers :: "query_args \<Rightarrow> obj option list" where
  "getIncomers (Args3 nodeOrId nodes edges) = map Some (getConnectedElements nodeOrId nodes edges ''source'')"
| "getIncomers (Args2 nodeOrId elements) =
     (let nodeId = subject_id nodeOrId;
          incomers = filter (\<lambda>el. isEdge el \<and> strict_eq (field el ''target'') nodeId) elements
      in map (\<lambda>edge. find (\<lambda>el. isNode el \<and> strict_eq (field el ''id'') (field edge ''source'')) elements)
             incomers)"

text \<open>
  \<^verbatim>\<open>isParentSelected\<close> recurses along the parent chain with nothing that bounds the
  recursion, so it is a partial function: \<open>None\<close> is a call that does not return.
\<close>

partial_function (option) isParentSelected :: "obj \<Rightarrow> (jsval \<Rightarrow> obj option) \<Rightarrow> bool option" where
  "isParentSelected node findNode =
     (if falsy (field node ''parentNode'') then Some False
      else (case findNode (field node ''parentNode'') of
              None \<Rightarrow> Some False
            | Some parent \<Rightarrow>
                if \<not> falsy (field parent ''selected'') then Some True
                else isParentSelected parent findNode))"

text \<open>
  The ancestor reached after \<open>n\<close> steps of \<^verbatim>\<open>findNode(parentNode)\<close>, if the chain is that
  long: it ends at a node without a parent identifier or whose parent is not found.
\<close>

fun ancestor :: "(jsval \<Rightarrow> obj option) \<Rightarrow> obj \<Rightarrow> nat \<Rightarrow> obj option" where
  "ancestor findNode node 0 = Some node"
| "ancestor findNode node (Suc n) =
     (if falsy (field node ''parentNode'') then None
      else (case findNode (field node ''parentNode'') of
              None \<Rightarrow> None
            | Some parent \<Rightarrow> ancestor findNode parent n))"

section \<open>Geometry\<close>

text \<open>
  The geometry functions compute with JavaScript numbers, modelled as reals. A node is read
  through the three fields \<^verbatim>\<open>getNodesInside\<close> destructures; a field that is
  \<^verbatim>\<open>undefined\<close> is \<open>None\<close>. The fields of the records are prefixed, since
  \<open>x\<close>, \<open>y\<close>, \<open>width\<close> and \<open>height\<close> occur in several of the source's types.
\<close>

record Rect =
  rect_x :: real
  rect_y :: real
  rect_width :: real
  rect_height :: real

record XYPosition =
  pos_x :: real
  pos_y :: real

record Dimensions =
  dim_width :: "real option"
  dim_height :: "real option"

record ViewportTransform =
  tx :: real
  ty :: real
  tScale :: real

record GraphNode =
  computedPosition :: "XYPosition option"
  dimensions :: "Dimensions option"
  selectable :: "bool option"

definition getOverlappingArea :: "Rect \<Rightarrow> Rect \<Rightarrow> real" where
  "getOverlappingArea rectA rectB =
     (let xOverlap = max 0 (min (rect_x rectA + rect_width rectA) (rect_x rectB + rect_width rectB)
                              - max (rect_x rectA) (rect_x rectB));
          yOverlap = max 0 (min (rect_y rectA + rect_height rectA) (rect_y rectB + rect_height rectB)
                              - max (rect_y rectA) (rect_y rectB))
      in of_int \<lceil>xOverlap * yOverlap\<rceil>)"

text \<open>The local constants \<^verbatim>\<open>paneRect\<close> and \<^verbatim>\<open>nodeRect\<close> of \<^verbatim>\<open>getNodesInside\<close>.\<close>

definition paneRect :: "Rect \<Rightarrow> ViewportTransform \<Rightarrow> Rect" where
  "paneRect rect t =
     \<lparr>rect_x = (rect_x rect - tx t) / tScale t,
      rect_y = (rect_y rect - ty t) / tScale t,
      rect_width = rect_width rect / tScale t,
      rect_height = rect_height rect / tScale t\<rparr>"

text \<open>\<^verbatim>\<open>v || 0\<close> on an optional number.\<close>

definition or_zero :: "real option \<Rightarrow> real" where
  "or_zero v = (case v of None \<Rightarrow> 0 | Some r \<Rightarrow> r)"

text \<open>The destructuring defaults of \<^verbatim>\<open>computedPosition\<close> and \<^verbatim>\<open>dimensions\<close>.\<close>

definition position_of :: "GraphNode \<Rightarrow> XYPosition" where
  "position_of node =
     (case computedPosition node of None \<Rightarrow> \<lparr>pos_x = 0, pos_y = 0\<rparr> | Some p \<Rightarrow> p)"

definition dimensions_of :: "GraphNode \<Rightarrow> Dimensions" where
  "dimensions_of node =
     (case dimensions node of None \<Rightarrow> \<lparr>dim_width = Some 0, dim_height = Some 0\<rparr> | Some d \<Rightarrow> d)"

definition nodeRect :: "GraphNode \<Rightarrow> Rect" where
  "nodeRect node =
     \<lparr>rect_x = pos_x (position_of node), rect_y = pos_y (position_of node),
      rect_width = or_zero (dim_width (dimensions_of node)),
      rect_height = or_zero (dim_height (dimensions_of node))\<rparr>"

definition notInitialized :: "GraphNode \<Rightarrow> bool" where
  "notInitialized node =
     (dim_width (dimensions_of node) = None \<or> dim_height (dimensions_of node) = None
      \<or> dim_width (dimensions_of node) = Some 0 \<or> dim_height (dimensions_of node) = Some 0)"

text \<open>
  \<^verbatim>\<open>overlappingArea >= area\<close> with \<^verbatim>\<open>area = dimensions.width * dimensions.height\<close>:
  the product of an undefined dimension is \<^verbatim>\<open>NaN\<close>, and a comparison with it is false.
\<close>

definition covers_area :: "real \<Rightarrow> GraphNode \<Rightarrow> bool" where
  "covers_area overlappingArea node =
     (case dim_width (dimensions_of node) of
        None \<Rightarrow> False
      | Some w \<Rightarrow> (case dim_height (dimensions_of node) of
                    None \<Rightarrow> False
                  | Some h \<Rightarrow> overlappingArea \<ge> w * h))"

definition getNodesInside ::
    "GraphNode list \<Rightarrow> Rect \<Rightarrow> ViewportTransform \<Rightarrow> bool \<Rightarrow> bool \<Rightarrow> GraphNode list" where
  "getNodesInside nodes rect t partially excludeNonSelectableNodes =
     filter (\<lambda>node.
        if excludeNonSelectableNodes \<and> selectable node \<noteq> Some True then False
        else
          (let overlappingArea = getOverlappingArea (paneRect rect t) (nodeRect node);
               partiallyVisible = (partially \<and> overlappingArea > 0)
           in notInitialized node \<or> partiallyVisible \<or> covers_area overlappingArea node))
       nodes"

section \<open>Example inputs\<close>

definition conn_AB :: obj where
  "conn_AB = [(''source'', JStr ''A''), (''target'', JStr ''B'')]"

definition conn_A_out1_B :: obj where
  "conn_A_out1_B = [(''source'', JStr ''A''), (''sourceHandle'', JStr ''out1''), (''target'', JStr ''B'')]"

definition conn_A_out2_B :: obj where
  "conn_A_out2_B = [(''source'', JStr ''A''), (''sourceHandle'', JStr ''out2''), (''target'', JStr ''B'')]"

definition edge_AB :: obj where
  "edge_AB = [(''id'', JStr ''vueflow__edge-A-B''), (''source'', JStr ''A''), (''target'', JStr ''B'')]"

definition edge_numeric :: obj where
  "edge_numeric = [(''id'', JNum 1), (''source'', JNum 2), (''target'', JNum 3)]"

definition node_with_parent :: obj where
  "node_with_parent = [(''id'', JStr ''n''), (''position'', JObj [(''x'', JNum 0), (''y'', JNum 0)]),
     (''parentNode'', JStr ''p'')]"

definition node_measured :: obj where
  "node_measured = [(''id'', JStr ''n''), (''dimensions'', JObj [(''width'', JNum 30), (''height'', JNum 20)]),
     (''selected'', JBool True), (''parentNode'', JStr ''q'')]"

definition edge_styled :: obj where
  "edge_styled = [(''id'', JStr ''e''), (''source'', JStr ''A''), (''target'', JStr ''B''),
     (''type'', JStr ''step''), (''label'', JStr ''old'')]"

definition two_edges_AB :: "obj list" where
  "two_edges_AB =
     [[(''id'', JStr ''e1''), (''source'', JStr ''A''), (''target'', JStr ''B'')],
      [(''id'', JStr ''e2''), (''source'', JStr ''A''), (''target'', JStr ''B'')]]"

definition node_A :: obj where
  "node_A = [(''id'', JStr ''A''), (''parentNode'', JStr ''B''), (''selected'', JBool False)]"

definition node_B :: obj where
  "node_B = [(''id'', JStr ''B''), (''parentNode'', JStr ''A''), (''selected'', JBool False)]"

definition cyclic_findNode :: "jsval \<Rightarrow> obj option" where
  "cyclic_findNode i =
     (if i = JStr ''A'' then Some node_A else if i = JStr ''B'' then Some node_B else None)"

definition tree_A :: "bool \<Rightarrow> obj" where
  "tree_A sel = [(''id'', JStr ''A''), (''selected'', JBool sel)]"

definition tree_B :: obj where
  "tree_B = [(''id'', JStr ''B''), (''parentNode'', JStr ''A''), (''selected'', JBool False)]"

definition tree_C :: obj where
  "tree_C = [(''id'', JStr ''C''), (''parentNode'', JStr ''B''), (''selected'', JBool False)]"

definition tree_findNode :: "bool \<Rightarrow> jsval \<Rightarrow> obj option" where
  "tree_findNode sel i =
     (if i = JStr ''A'' then Some (tree_A sel) else if i = JStr ''B'' then Some tree_B
      else if i = JStr ''C'' then Some tree_C else None)"

definition dangling_elements :: "obj list" where
  "dangling_elements =
     [[(''id'', JStr ''A''), (''position'', JObj [(''x'', JNum 0), (''y'', JNum 0)])],
      [(''id'', JStr ''e''), (''source'', JStr ''A''), (''target'', JStr ''B'')]]"

definition unmeasured_node :: GraphNode where
  "unmeasured_node = \<lparr>computedPosition = None, dimensions = None, selectable = None\<rparr>"

definition box_node :: GraphNode where
  "box_node = \<lparr>computedPosition = Some \<lparr>pos_x = 10, pos_y = 10\<rparr>,
                dimensions = Some \<lparr>dim_width = Some 20, dim_height = Some 10\<rparr>,
                selectable = Some True\<rparr>"

definition screen_rect :: Rect where
  "screen_rect = \<lparr>rect_x = 0, rect_y = 0, rect_width = 100, rect_height = 100\<rparr>"

definition zoom2 :: ViewportTransform where
  "zoom2 = \<lparr>tx = 0, ty = 0, tScale = 2\<rparr>"

section \<open>Properties\<close>

subsection \<open>Association lists as objects\<close>

lemma map_of_rev_distinct: "distinct (map fst xs) \<Longrightarrow> map_of (rev xs) = map_of xs"
proof (rule ext)
  fix k
  assume d: "distinct (map fst xs)"
  then have d': "distinct (map fst (rev xs))" by (simp add: rev_map [symmetric])
  show "map_of (rev xs) k = map_of xs k"
  proof (cases "map_of xs k")
    case None
    then have "k \<notin> fst ` set xs" by (simp add: map_of_eq_None_iff)
    then have "map_of (rev xs) k = None" by (simp add: map_of_eq_None_iff)
    with None show ?thesis by simp
  next
    case (Some v)
    with d have "(k, v) \<in> set (rev xs)" by simp
    with d' have "map_of (rev xs) k = Some v" by (simp only: map_of_eq_Some_iff)
    with Some show ?thesis by simp
  qed
qed

lemma map_of_assign: "map_of (assign t s) = map_of t ++ map_of (rev s)"
  unfolding assign_def
proof (induction s arbitrary: t)
  case Nil
  then show ?case by simp
next
  case (Cons x xs)
  have "map_of (AList.update (fst x) (snd x) t) ++ map_of (rev xs)
        = map_of t ++ (map_of [x] ++ map_of (rev xs))"
    by (rule ext) (simp add: map_add_def update_conv' split: option.splits)
  then show ?case
    by (simp add: Cons.IH)
qed

lemma has_iff: "has ob k = (map_of ob k \<noteq> None)"
  by (simp add: has_def map_of_eq_None_iff)

lemma has_assign: "has (assign t s) k = (has t k \<or> has s k)"
proof -
  have "map_of (rev s) k = None \<longleftrightarrow> map_of s k = None"
    by (simp add: map_of_eq_None_iff)
  then show ?thesis
    by (auto simp: has_iff map_of_assign map_add_def split: option.splits)
qed

lemma field_assign_absent: "\<not> has s k \<Longrightarrow> field (assign t s) k = field t k"
proof -
  assume "\<not> has s k"
  then have "map_of (rev s) k = None"
    by (simp add: has_def map_of_eq_None_iff)
  then show ?thesis
    by (simp add: field_def map_of_assign map_add_def)
qed

lemma field_assign_present: "wf_obj s \<Longrightarrow> has s k \<Longrightarrow> field (assign t s) k = field s k"
  by (auto simp: field_def has_iff map_of_assign map_add_def wf_obj_def map_of_rev_distinct
           split: option.splits)

lemma wf_assign: "wf_obj t \<Longrightarrow> wf_obj (assign t s)"
  unfolding assign_def wf_obj_def
  by (induction s arbitrary: t) (simp_all add: distinct_update)

lemma wf_assign_Nil: "wf_obj (assign [] s)"
  by (rule wf_assign) (simp add: wf_obj_def)

lemma field_copy: "wf_obj p \<Longrightarrow> field (assign [] p) k = field p k"
  by (cases "has p k") (simp_all add: field_assign_present field_assign_absent, simp add: field_def has_iff)

lemma toString_defined: "\<not> is_nullish v \<Longrightarrow> toString v = Inr (toStr v)"
  by (simp add: toString_def is_nullish_def)

lemma field_overlay:
  assumes "wf_obj raw" and "wf_obj ov"
  shows "field (assign (assign base raw) ov) k =
           (if has ov k then field ov k else if has raw k then field raw k else field base k)"
  using assms by (simp add: field_assign_present field_assign_absent)

lemma has_overlay: "has (assign (assign base raw) ov) k = (has base k \<or> has raw k \<or> has ov k)"
  by (simp add: has_assign)

lemma field_absent: "\<not> has ob k \<Longrightarrow> field ob k = JUndefined"
  by (simp add: field_def has_iff)

lemma truthy_not_nullish: "\<not> falsy v \<Longrightarrow> \<not> is_nullish v"
  by (cases v) (simp_all add: is_nullish_def)

lemma truthy_field_present: "\<not> falsy (field ob k) \<Longrightarrow> has ob k"
  using field_absent [of ob k] by (cases "has ob k") simp_all

subsection \<open>Edge identifiers\<close>

lemma split_at_first:
  "x \<notin> set a1 \<Longrightarrow> x \<notin> set a2 \<Longrightarrow> a1 @ x # b1 = a2 @ x # b2 \<Longrightarrow> a1 = a2 \<and> b1 = b2"
proof (induction a1 arbitrary: a2)
  case Nil
  then show ?case by (cases a2) auto
next
  case (Cons y ys)
  then show ?case by (cases a2) auto
qed

lemma split_at_last:
  assumes "x \<notin> set b1" and "x \<notin> set b2" and "a1 @ x # b1 = a2 @ x # b2"
  shows "a1 = a2 \<and> b1 = b2"
proof -
  from assms(3) have "rev (a1 @ x # b1) = rev (a2 @ x # b2)" by simp
  then have eq: "rev b1 @ x # rev a1 = rev b2 @ x # rev a2" by simp
  have n: "x \<notin> set (rev b1)" "x \<notin> set (rev b2)" using assms(1,2) by simp_all
  have "rev b1 = rev b2 \<and> rev a1 = rev a2" by (rule split_at_first [OF n eq])
  then show ?thesis by simp
qed

lemma getEdgeId_parts:
  "getEdgeId c = ''vueflow__edge-'' @ source_part c @ CHR ''-'' # target_part c"
  by (simp add: getEdgeId_def source_part_def target_part_def)

lemma toStr_inj_on_str: "is_str a \<Longrightarrow> is_str b \<Longrightarrow> toStr a = toStr b \<Longrightarrow> a = b"
  by (cases a; cases b) simp_all

lemma toStr_nullish_handle:
  "is_handle v \<Longrightarrow> toStr (nullish v (JStr [])) = (case handle_of v of None \<Rightarrow> [] | Some s \<Rightarrow> s)"
  by (cases v) simp_all

lemma getEdgeId_conn_tuple:
  assumes "isConnection c"
  shows "getEdgeId c =
    ''vueflow__edge-'' @ toStr (fst (conn_tuple c))
      @ (case fst (snd (snd (conn_tuple c))) of None \<Rightarrow> [] | Some s \<Rightarrow> s)
      @ ''-'' @ toStr (fst (snd (conn_tuple c)))
      @ (case snd (snd (snd (conn_tuple c))) of None \<Rightarrow> [] | Some s \<Rightarrow> s)"
  using assms
  by (simp add: getEdgeId_def conn_tuple_def isConnection_def toStr_nullish_handle)

text \<open>
  C1 (as stated): two connections get the same identifier if and only if their 4-tuples are
  equal. The identifier concatenates the source with its handle and the target with its
  handle without a separator, so source \<^verbatim>\<open>"a"\<close> with handle \<^verbatim>\<open>"b"\<close> and source
  \<^verbatim>\<open>"ab"\<close> with no handle get the same identifier.
\<close>

theorem getEdgeId_not_injective:
  "isConnection [(''source'', JStr ''a''), (''sourceHandle'', JStr ''b''), (''target'', JStr ''c'')]
   \<and> isConnection [(''source'', JStr ''ab''), (''target'', JStr ''c'')]
   \<and> getEdgeId [(''source'', JStr ''a''), (''sourceHandle'', JStr ''b''), (''target'', JStr ''c'')]
       = getEdgeId [(''source'', JStr ''ab''), (''target'', JStr ''c'')]
   \<and> conn_tuple [(''source'', JStr ''a''), (''sourceHandle'', JStr ''b''), (''target'', JStr ''c'')]
       \<noteq> conn_tuple [(''source'', JStr ''ab''), (''target'', JStr ''c'')]"
  by (simp add: isConnection_def getEdgeId_def conn_tuple_def field_def)

text \<open>
  C1 (amended): getEdgeId is deterministic, equal 4-tuples give equal identifiers. It is
  injective on what it prints, not on the 4-tuple: two connections get the same identifier
  exactly when source-with-handle, separator, target-with-handle is the same string; and when
  the separator \<^verbatim>\<open>-\<close> occurs in neither source-with-handle string (or in neither
  target-with-handle string), exactly when the two source-with-handle strings are equal and the
  two target-with-handle strings are equal. So under that condition any difference in source,
  target or a handle that changes one of the two concatenations gives a distinct identifier:
  connections with the same source and target and equal identifiers have the same handle
  strings, and connections with the same handles and equal identifiers have equal 4-tuples.
  What is not told apart is where the source ends and its handle begins.
\<close>

theorem getEdgeId_deterministic_and_injective_on_parts:
  assumes "isConnection c1" and "isConnection c2"
  shows "(conn_tuple c1 = conn_tuple c2 \<longrightarrow> getEdgeId c1 = getEdgeId c2)
    \<and> (getEdgeId c1 = getEdgeId c2
         \<longleftrightarrow> source_part c1 @ ''-'' @ target_part c1 = source_part c2 @ ''-'' @ target_part c2)
    \<and> (CHR ''-'' \<notin> set (source_part c1) \<and> CHR ''-'' \<notin> set (source_part c2)
         \<longrightarrow> (getEdgeId c1 = getEdgeId c2
                \<longleftrightarrow> source_part c1 = source_part c2 \<and> target_part c1 = target_part c2))
    \<and> (CHR ''-'' \<notin> set (target_part c1) \<and> CHR ''-'' \<notin> set (target_part c2)
         \<longrightarrow> (getEdgeId c1 = getEdgeId c2
                \<longleftrightarrow> source_part c1 = source_part c2 \<and> target_part c1 = target_part c2))
    \<and> (field c1 ''source'' = field c2 ''source'' \<and> field c1 ''target'' = field c2 ''target''
       \<and> CHR ''-'' \<notin> set (source_part c1) \<and> CHR ''-'' \<notin> set (source_part c2)
       \<and> getEdgeId c1 = getEdgeId c2
       \<longrightarrow> toStr (nullish (field c1 ''sourceHandle'') (JStr ''''))
             = toStr (nullish (field c2 ''sourceHandle'') (JStr ''''))
           \<and> toStr (nullish (field c1 ''targetHandle'') (JStr ''''))
             = toStr (nullish (field c2 ''targetHandle'') (JStr '''')))
    \<and> (handle_of (field c1 ''sourceHandle'') = handle_of (field c2 ''sourceHandle'')
       \<and> handle_of (field c1 ''targetHandle'') = handle_of (field c2 ''targetHandle'')
       \<and> CHR ''-'' \<notin> set (toStr (field c1 ''source'') @ toStr (nullish (field c1 ''sourceHandle'') (JStr '''')))
       \<and> CHR ''-'' \<notin> set (toStr (field c2 ''source'') @ toStr (nullish (field c2 ''sourceHandle'') (JStr '''')))
       \<and> getEdgeId c1 = getEdgeId c2
       \<longrightarrow> conn_tuple c1 = conn_tuple c2)"
proof -
  have exact: "getEdgeId c1 = getEdgeId c2
         \<longleftrightarrow> source_part c1 @ CHR ''-'' # target_part c1 = source_part c2 @ CHR ''-'' # target_part c2"
    by (simp add: getEdgeId_parts)
  have first: "getEdgeId c1 = getEdgeId c2
                \<longleftrightarrow> source_part c1 = source_part c2 \<and> target_part c1 = target_part c2"
    if "CHR ''-'' \<notin> set (source_part c1)" "CHR ''-'' \<notin> set (source_part c2)"
    using split_at_first [OF that] by (auto simp: exact)
  have last: "getEdgeId c1 = getEdgeId c2
                \<longleftrightarrow> source_part c1 = source_part c2 \<and> target_part c1 = target_part c2"
    if "CHR ''-'' \<notin> set (target_part c1)" "CHR ''-'' \<notin> set (target_part c2)"
    using split_at_last [OF that] by (auto simp: exact)
  have det: "getEdgeId c1 = getEdgeId c2" if "conn_tuple c1 = conn_tuple c2"
    using that by (simp add: getEdgeId_conn_tuple [OF assms(1)] getEdgeId_conn_tuple [OF assms(2)])
  have strs: "is_str (field c1 ''source'')" "is_str (field c2 ''source'')"
       "is_str (field c1 ''target'')" "is_str (field c2 ''target'')"
    using assms by (simp_all add: isConnection_def)
  have handles: "toStr (nullish (field c1 ''sourceHandle'') (JStr ''''))
             = toStr (nullish (field c2 ''sourceHandle'') (JStr ''''))
           \<and> toStr (nullish (field c1 ''targetHandle'') (JStr ''''))
             = toStr (nullish (field c2 ''targetHandle'') (JStr ''''))"
    if a: "field c1 ''source'' = field c2 ''source'' \<and> field c1 ''target'' = field c2 ''target''
       \<and> CHR ''-'' \<notin> set (source_part c1) \<and> CHR ''-'' \<notin> set (source_part c2)
       \<and> getEdgeId c1 = getEdgeId c2"
  proof -
    from a have "source_part c1 = source_part c2 \<and> target_part c1 = target_part c2"
      using first by blast
    with a show ?thesis by (simp add: source_part_def target_part_def)
  qed
  have tuples: "conn_tuple c1 = conn_tuple c2"
    if a: "handle_of (field c1 ''sourceHandle'') = handle_of (field c2 ''sourceHandle'')
       \<and> handle_of (field c1 ''targetHandle'') = handle_of (field c2 ''targetHandle'')
       \<and> CHR ''-'' \<notin> set (toStr (field c1 ''source'') @ toStr (nullish (field c1 ''sourceHandle'') (JStr '''')))
       \<and> CHR ''-'' \<notin> set (toStr (field c2 ''source'') @ toStr (nullish (field c2 ''sourceHandle'') (JStr '''')))
       \<and> getEdgeId c1 = getEdgeId c2"
  proof -
    have hs: "toStr (nullish (field c1 ''sourceHandle'') (JStr ''''))
                = toStr (nullish (field c2 ''sourceHandle'') (JStr ''''))"
      and hg: "toStr (nullish (field c1 ''targetHandle'') (JStr ''''))
                = toStr (nullish (field c2 ''targetHandle'') (JStr ''''))"
      using a assms by (simp_all add: isConnection_def toStr_nullish_handle)
    from a have "CHR ''-'' \<notin> set (source_part c1)" "CHR ''-'' \<notin> set (source_part c2)"
      by (simp_all add: source_part_def)
    with a have "source_part c1 = source_part c2 \<and> target_part c1 = target_part c2"
      using first by blast
    with hs hg have "toStr (field c1 ''source'') = toStr (field c2 ''source'')
        \<and> toStr (field c1 ''target'') = toStr (field c2 ''target'')"
      by (simp add: source_part_def target_part_def)
    with strs have "field c1 ''source'' = field c2 ''source'' \<and> field c1 ''target'' = field c2 ''target''"
      by (simp add: toStr_inj_on_str)
    with a show ?thesis by (simp add: conn_tuple_def)
  qed
  have exact': "getEdgeId c1 = getEdgeId c2
         \<longleftrightarrow> source_part c1 @ ''-'' @ target_part c1 = source_part c2 @ ''-'' @ target_part c2"
    using exact by simp
  from det exact' first last handles tuples show ?thesis by blast
qed

theorem getEdgeId_deterministic_and_injective_on_parts_witness:
  "isConnection [(''source'', JStr ''A''), (''target'', JStr ''B'')]
   \<and> isConnection [(''target'', JStr ''B''), (''sourceHandle'', JNull), (''source'', JStr ''A'')]
   \<and> CHR ''-'' \<notin> set ''A''
   \<and> getEdgeId [(''source'', JStr ''A''), (''target'', JStr ''B'')]
       = getEdgeId [(''target'', JStr ''B''), (''sourceHandle'', JNull), (''source'', JStr ''A'')]
   \<and> conn_tuple [(''source'', JStr ''A''), (''target'', JStr ''B'')]
       = conn_tuple [(''target'', JStr ''B''), (''sourceHandle'', JNull), (''source'', JStr ''A'')]
   \<and> isConnection conn_A_out1_B \<and> isConnection conn_A_out2_B
   \<and> CHR ''-'' \<notin> set (source_part conn_A_out1_B) \<and> CHR ''-'' \<notin> set (source_part conn_A_out2_B)
   \<and> source_part conn_A_out1_B \<noteq> source_part conn_A_out2_B
   \<and> getEdgeId conn_A_out1_B \<noteq> getEdgeId conn_A_out2_B"
proof -
  have h1: "isConnection [(''source'', JStr ''A''), (''target'', JStr ''B'')]"
    by (simp add: isConnection_def field_def)
  have h2: "isConnection [(''target'', JStr ''B''), (''sourceHandle'', JNull), (''source'', JStr ''A'')]"
    by (simp add: isConnection_def field_def)
  have h3: "isConnection conn_A_out1_B" by (simp add: isConnection_def field_def conn_A_out1_B_def)
  have h4: "isConnection conn_A_out2_B" by (simp add: isConnection_def field_def conn_A_out2_B_def)
  have sp: "source_part conn_A_out1_B = ''Aout1''" "source_part conn_A_out2_B = ''Aout2''"
    by (simp_all add: source_part_def field_def conn_A_out1_B_def conn_A_out2_B_def)
  have nd: "CHR ''-'' \<notin> set (source_part conn_A_out1_B)" "CHR ''-'' \<notin> set (source_part conn_A_out2_B)"
    by (simp_all add: sp)
  have ne: "source_part conn_A_out1_B \<noteq> source_part conn_A_out2_B"
    by (simp add: sp)
  have distinct_ids: "getEdgeId conn_A_out1_B \<noteq> getEdgeId conn_A_out2_B"
    using getEdgeId_deterministic_and_injective_on_parts [OF h3 h4] nd ne by blast
  show ?thesis
    using h1 h2 h3 h4 nd ne distinct_ids getEdgeId_deterministic_and_injective_on_parts [OF h1 h2]
    by (simp add: field_def getEdgeId_def)
qed

text \<open>
  C2 (as stated): getEdgeId returns \<^verbatim>\<open>"edge-" + source + (sourceHandle ?? "") + "-" +
  target + (targetHandle ?? "")\<close>, and adding the connection A to B to the empty collection
  gives one edge with id \<^verbatim>\<open>"edge-A-B"\<close>. The prefix in the code is
  \<^verbatim>\<open>vueflow__edge-\<close>.
\<close>

theorem getEdgeId_prefix_counterexample:
  "getEdgeId conn_AB \<noteq> ''edge-'' @ ''A'' @ [] @ ''-'' @ ''B'' @ []
   \<and> \<not> isl (addEdge isDef_typeof conn_AB [] None)
   \<and> length (returned (projr (addEdge isDef_typeof conn_AB [] None))) = 1
   \<and> field (hd (returned (projr (addEdge isDef_typeof conn_AB [] None)))) ''id'' = JStr ''vueflow__edge-A-B''
   \<and> field (hd (returned (projr (addEdge isDef_typeof conn_AB [] None)))) ''id'' \<noteq> JStr ''edge-A-B''"
  by (simp add: conn_AB_def addEdge_def field_def isEdge_def has_def assign_def parseEdge_def Let_def
      toString_def getEdgeId_def connectionExists_def opt_toString_def opt_field_def)

text \<open>
  C2 (amended): for every connection, getEdgeId returns \<^verbatim>\<open>"vueflow__edge-" + source +
  (sourceHandle ?? "") + "-" + target + (targetHandle ?? "")\<close>; adding the connection A to B
  to the empty collection returns, without a warning, a one-edge collection whose edge has id
  \<^verbatim>\<open>"vueflow__edge-A-B"\<close>.
\<close>

theorem getEdgeId_format:
  assumes "field c ''source'' = JStr s" and "field c ''target'' = JStr t"
    and "is_handle (field c ''sourceHandle'')" and "is_handle (field c ''targetHandle'')"
  shows "getEdgeId c =
      ''vueflow__edge-'' @ s @ (case handle_of (field c ''sourceHandle'') of None \<Rightarrow> [] | Some h \<Rightarrow> h)
        @ ''-'' @ t @ (case handle_of (field c ''targetHandle'') of None \<Rightarrow> [] | Some h \<Rightarrow> h)
    \<and> (\<exists>r. addEdge isDef conn_AB [] None = Inr r \<and> warned r = []
          \<and> map (\<lambda>e. field e ''id'') (returned r) = [JStr ''vueflow__edge-A-B''])"
proof
  show "getEdgeId c =
      ''vueflow__edge-'' @ s @ (case handle_of (field c ''sourceHandle'') of None \<Rightarrow> [] | Some h \<Rightarrow> h)
        @ ''-'' @ t @ (case handle_of (field c ''targetHandle'') of None \<Rightarrow> [] | Some h \<Rightarrow> h)"
    using assms by (simp add: getEdgeId_def toStr_nullish_handle)
  show "\<exists>r. addEdge isDef conn_AB [] None = Inr r \<and> warned r = []
          \<and> map (\<lambda>e. field e ''id'') (returned r) = [JStr ''vueflow__edge-A-B'']"
    by (simp add: conn_AB_def addEdge_def field_def isEdge_def has_def assign_def parseEdge_def Let_def
      toString_def getEdgeId_def connectionExists_def opt_toString_def opt_field_def)
qed

theorem getEdgeId_format_witness:
  "field [(''source'', JStr ''n1''), (''sourceHandle'', JStr ''out''), (''target'', JStr ''n2''),
          (''targetHandle'', JNull)] ''source'' = JStr ''n1''
   \<and> getEdgeId [(''source'', JStr ''n1''), (''sourceHandle'', JStr ''out''), (''target'', JStr ''n2''),
                 (''targetHandle'', JNull)] = ''vueflow__edge-n1out-n2''"
proof -
  let ?c = "[(''source'', JStr ''n1''), (''sourceHandle'', JStr ''out''), (''target'', JStr ''n2''),
             (''targetHandle'', JNull)]"
  have h1: "field ?c ''source'' = JStr ''n1''" by (simp add: field_def)
  have h2: "field ?c ''target'' = JStr ''n2''" by (simp add: field_def)
  have h3: "is_handle (field ?c ''sourceHandle'')" by (simp add: field_def)
  have h4: "is_handle (field ?c ''targetHandle'')" by (simp add: field_def)
  show ?thesis
    using h1 getEdgeId_format [OF h1 h2 h3 h4, of isDef_typeof]
    by (simp add: field_def)
qed

subsection \<open>Edge mutation protocol\<close>

text \<open>
  C5: addEdge with a missing or empty source or target, and updateEdge with a missing or empty
  new source or target or with an old edge whose identifier no edge of the collection has,
  pass one message to the warning channel and return the collection as it was: nothing is
  added, nothing removed, and nothing is thrown.
\<close>

theorem invalid_mutation_is_noop:
  "(falsy (field edgeParams ''source'') \<or> falsy (field edgeParams ''target'') \<longrightarrow>
      addEdge isDef edgeParams elements defaults =
        Inr \<lparr>warned = [''Can't create edge. An edge needs a source and a target.''],
             collection = elements, returned = elements\<rparr>)
   \<and> (falsy (field newConnection ''source'') \<or> falsy (field newConnection ''target'') \<longrightarrow>
      updateEdge oldEdge newConnection elements =
        \<lparr>warned = [''Can't create new edge. An edge needs a source and a target.''],
         collection = elements, returned = elements\<rparr>)
   \<and> (\<not> list_ex (\<lambda>e. isEdge e \<and> field e ''id'' = field oldEdge ''id'') elements \<longrightarrow>
      (\<exists>w. updateEdge oldEdge newConnection' elements =
        \<lparr>warned = [w], collection = elements, returned = elements\<rparr>))"
proof (intro conjI impI)
  assume "\<not> list_ex (\<lambda>e. isEdge e \<and> field e ''id'' = field oldEdge ''id'') elements"
  then have "find (\<lambda>e. isEdge e \<and> strict_eq (field e ''id'') (field oldEdge ''id'')) elements = None"
    by (simp add: find_None_iff list_ex_iff strict_eq_def)
  then show "\<exists>w. updateEdge oldEdge newConnection' elements =
        \<lparr>warned = [w], collection = elements, returned = elements\<rparr>"
    by (simp add: updateEdge_def)
qed (simp_all add: addEdge_def updateEdge_def)

theorem invalid_mutation_is_noop_witness:
  "addEdge isDef_typeof [(''source'', JStr ''A'')] [edge_AB] None =
        Inr \<lparr>warned = [''Can't create edge. An edge needs a source and a target.''],
             collection = [edge_AB], returned = [edge_AB]\<rparr>
   \<and> updateEdge edge_AB [(''source'', JStr []), (''target'', JStr ''B'')] [edge_AB] =
        \<lparr>warned = [''Can't create new edge. An edge needs a source and a target.''],
         collection = [edge_AB], returned = [edge_AB]\<rparr>
   \<and> updateEdge [(''id'', JStr ''other''), (''source'', JStr ''A''), (''target'', JStr ''B'')] conn_AB [edge_AB] =
        \<lparr>warned = [''The old edge with id=other does not exist.''],
         collection = [edge_AB], returned = [edge_AB]\<rparr>"
  using invalid_mutation_is_noop [of "[(''source'', JStr ''A'')]" isDef_typeof "[edge_AB]" None
      "[(''source'', JStr []), (''target'', JStr ''B'')]" edge_AB
      ]
    invalid_mutation_is_noop [of "[(''source'', JStr ''A'')]" isDef_typeof "[edge_AB]" None
      "[(''source'', JStr []), (''target'', JStr ''B'')]"
      "[(''id'', JStr ''other''), (''source'', JStr ''A''), (''target'', JStr ''B'')]" conn_AB]
  by (simp add: field_def edge_AB_def conn_AB_def isEdge_def has_def updateEdge_def strict_eq_def)

lemma parseEdge_new:
  assumes wf: "wf_obj e0"
    and ok: "\<not> is_nullish (field e0 ''id'')" "\<not> is_nullish (field e0 ''source'')"
            "\<not> is_nullish (field e0 ''target'')"
    and pres: "has e0 ''source''" "has e0 ''target''"
    and dh: "defaults_omit_handles d"
  shows "\<exists>e. parseEdge isDef e0 None d = Inr e \<and> isEdge e
           \<and> field e ''id'' = JStr (toStr (field e0 ''id''))
           \<and> field e ''source'' = field e0 ''source'' \<and> field e ''target'' = field e0 ''target''
           \<and> field e ''sourceHandle'' = field e0 ''sourceHandle''
           \<and> field e ''targetHandle'' = field e0 ''targetHandle''"
proof -
  let ?ov = "[(''id'', JStr (toStr (field e0 ''id'')))]"
  let ?D = "case d of None \<Rightarrow> [] | Some x \<Rightarrow> x"
  have wfov: "wf_obj ?ov" by (simp add: wf_obj_def)
  have hov: "\<And>k. has ?ov k = (k = ''id'')" by (auto simp: has_def)
  have dD: "\<not> has ?D ''sourceHandle''" "\<not> has ?D ''targetHandle''"
    using dh by (cases d; simp add: defaults_omit_handles_def has_def)+
  obtain lit where g: "parseEdge isDef e0 None d = Inr (assign (assign (assign lit ?D) e0) ?ov)"
    and l1: "has lit ''id''"
    and l2: "field lit ''sourceHandle'' = opt_toString (field e0 ''sourceHandle'')"
    and l3: "field lit ''targetHandle'' = opt_toString (field e0 ''targetHandle'')"
    using ok by (simp add: parseEdge_def toString_defined Let_def has_def field_def)
  let ?e = "assign (assign (assign lit ?D) e0) ?ov"
  have f: "\<And>k. field ?e k =
           (if has ?ov k then field ?ov k else if has e0 k then field e0 k else field (assign lit ?D) k)"
    by (rule field_overlay [OF wf wfov])
  have "isEdge ?e"
    using pres by (simp add: isEdge_def has_overlay hov)
  moreover have "field ?e ''id'' = JStr (toStr (field e0 ''id''))"
    by (simp add: f hov) (simp add: field_def)
  moreover have "field ?e ''source'' = field e0 ''source''" "field ?e ''target'' = field e0 ''target''"
    using pres by (simp_all add: f hov)
  moreover have "field ?e ''sourceHandle'' = field e0 ''sourceHandle''"
  proof (cases "has e0 ''sourceHandle''")
    case True
    then show ?thesis by (simp add: f hov)
  next
    case False
    then have "field e0 ''sourceHandle'' = JUndefined" by (rule field_absent)
    with False show ?thesis
      by (simp add: f hov field_assign_absent [OF dD(1)] l2 opt_toString_def)
  qed
  moreover have "field ?e ''targetHandle'' = field e0 ''targetHandle''"
  proof (cases "has e0 ''targetHandle''")
    case True
    then show ?thesis by (simp add: f hov)
  next
    case False
    then have "field e0 ''targetHandle'' = JUndefined" by (rule field_absent)
    with False show ?thesis
      by (simp add: f hov field_assign_absent [OF dD(2)] l3 opt_toString_def)
  qed
  ultimately show ?thesis using g by blast
qed

lemma connection_matches_cong:
  assumes "field e ''source'' = field p ''source''" "field e ''target'' = field p ''target''"
    "field e ''sourceHandle'' = field p ''sourceHandle''" "field e ''targetHandle'' = field p ''targetHandle''"
  shows "connection_matches e = connection_matches p"
  using assms by (auto simp: connection_matches_def fun_eq_iff)

lemma connection_matches_self: "isEdge e \<Longrightarrow> connection_matches e e"
  by (simp add: connection_matches_def strict_eq_def)

lemma addEdge_edge:
  assumes wf: "wf_obj p"
    and src: "\<not> falsy (field p ''source'')" and tgt: "\<not> falsy (field p ''target'')"
    and idok: "has p ''id'' \<Longrightarrow> \<not> is_nullish (field p ''id'')"
    and dh: "defaults_omit_handles d"
  shows "\<exists>e. parseEdge isDef
                (if isEdge p then assign [] p
                 else assign (assign [] p) [(''id'', JStr (getEdgeId p))]) None d = Inr e
          \<and> isEdge e \<and> connection_matches e = connection_matches p
          \<and> field e ''id'' = JStr (if has p ''id'' then toStr (field p ''id'') else getEdgeId p)
          \<and> field e ''source'' = field p ''source'' \<and> field e ''target'' = field p ''target''
          \<and> field e ''sourceHandle'' = field p ''sourceHandle''
          \<and> field e ''targetHandle'' = field p ''targetHandle''
          \<and> (\<forall>els. addEdge isDef p els d =
                Inr (if connectionExists e els
                     then \<lparr>warned = [], collection = els, returned = els\<rparr>
                     else \<lparr>warned = [], collection = els @ [e], returned = els @ [e]\<rparr>))"
proof -
  let ?e0 = "if isEdge p then assign [] p
             else assign (assign [] p) [(''id'', JStr (getEdgeId p))]"
  have hs: "has p ''source''" and ht: "has p ''target''"
    using src tgt by (simp_all add: truthy_field_present)
  have ie: "isEdge p = has p ''id''"
    using hs ht by (simp add: isEdge_def)
  have wf0: "wf_obj ?e0" by (simp add: wf_assign wf_assign_Nil)
  have other: "\<And>k. k \<noteq> ''id'' \<Longrightarrow> field ?e0 k = field p k"
    by (simp add: field_copy [OF wf] field_assign_absent has_def)
  have hasother: "\<And>k. k \<noteq> ''id'' \<Longrightarrow> has ?e0 k = has p k"
    by (simp add: has_assign) (simp add: has_def)
  have new_id: "field (assign (assign [] p) [(''id'', JStr (getEdgeId p))]) ''id'' = JStr (getEdgeId p)"
    by (subst field_assign_present) (simp_all add: wf_obj_def has_def field_def)
  have id0: "\<not> is_nullish (field ?e0 ''id'')"
  proof (cases "isEdge p")
    case True
    then have "has p ''id''" by (simp add: isEdge_def)
    with True idok show ?thesis by (simp add: field_copy [OF wf])
  next
    case False
    with new_id show ?thesis by (simp add: is_nullish_def)
  qed
  have idstr: "toStr (field ?e0 ''id'') = (if has p ''id'' then toStr (field p ''id'') else getEdgeId p)"
  proof (cases "isEdge p")
    case True
    with ie show ?thesis by (simp add: field_copy [OF wf])
  next
    case False
    with ie new_id show ?thesis by simp
  qed
  have "\<not> is_nullish (field ?e0 ''source'')" "\<not> is_nullish (field ?e0 ''target'')"
    using src tgt by (simp_all add: other truthy_not_nullish)
  moreover have "has ?e0 ''source''" "has ?e0 ''target''"
    using hs ht by (simp_all add: hasother)
  ultimately obtain e where e: "parseEdge isDef ?e0 None d = Inr e" "isEdge e"
      "field e ''id'' = JStr (toStr (field ?e0 ''id''))"
      "field e ''source'' = field ?e0 ''source''" "field e ''target'' = field ?e0 ''target''"
      "field e ''sourceHandle'' = field ?e0 ''sourceHandle''"
      "field e ''targetHandle'' = field ?e0 ''targetHandle''"
    using parseEdge_new [OF wf0 id0 _ _ _ _ dh, of isDef] by blast
  have fs: "field e ''source'' = field p ''source''" "field e ''target'' = field p ''target''"
      "field e ''sourceHandle'' = field p ''sourceHandle''"
      "field e ''targetHandle'' = field p ''targetHandle''"
    by (simp_all add: e other)
  have fid: "field e ''id'' = JStr (if has p ''id'' then toStr (field p ''id'') else getEdgeId p)"
    by (simp only: e(3) idstr)
  have cm: "connection_matches e = connection_matches p"
    by (rule connection_matches_cong) (rule fs)+
  have "\<forall>els. addEdge isDef p els d =
                Inr (if connectionExists e els
                     then \<lparr>warned = [], collection = els, returned = els\<rparr>
                     else \<lparr>warned = [], collection = els @ [e], returned = els @ [e]\<rparr>)"
    using src tgt e(1) by (simp add: addEdge_def)
  with e(1,2) cm fid fs show ?thesis by blast
qed

text \<open>
  C3 (as stated): for every collection, adding the same connection twice leaves exactly one
  edge matching it. addEdge only refuses to add a duplicate; it never removes one, so a
  collection that already holds two matching edges still holds two after both calls.
\<close>

theorem addEdge_duplicates_counterexample:
  "\<not> falsy (field conn_AB ''source'') \<and> \<not> falsy (field conn_AB ''target'')
   \<and> addEdge isDef_typeof conn_AB two_edges_AB None
       = Inr \<lparr>warned = [], collection = two_edges_AB, returned = two_edges_AB\<rparr>
   \<and> addEdge isDef_typeof conn_AB
         (returned (projr (addEdge isDef_typeof conn_AB two_edges_AB None))) None
       = Inr \<lparr>warned = [], collection = two_edges_AB, returned = two_edges_AB\<rparr>
   \<and> length (filter (connection_matches conn_AB) two_edges_AB) = 2"
  by (simp add: conn_AB_def two_edges_AB_def addEdge_def field_def isEdge_def has_def assign_def
      parseEdge_def Let_def toString_def getEdgeId_def connectionExists_def connection_matches_def
      strict_eq_def opt_toString_def opt_field_def)

text \<open>
  C3 (amended): for connection parameters with non-empty source and target (an identifier, if
  given, not null or undefined; defaults without handles), addEdge returns without a fault
  and without a warning. If the collection already holds an edge matching the connection,
  the first call returns the collection itself, unchanged; otherwise it returns the collection
  with one edge appended, the edge that parseEdge makes of the parameters, which has the
  parameters' source, target and handles, matches the connection, and has the given identifier
  in string form or else the derived one. A second call with the same parameters on the
  result returns that result unchanged, again without a warning. So a collection without a
  matching edge ends up with exactly one, and a collection with matching edges keeps as many
  as it had.
\<close>

theorem addEdge_idempotent:
  assumes wf: "wf_obj p"
    and src: "\<not> falsy (field p ''source'')" and tgt: "\<not> falsy (field p ''target'')"
    and idok: "has p ''id'' \<Longrightarrow> \<not> is_nullish (field p ''id'')"
    and dh: "defaults_omit_handles d"
  shows "\<exists>r1 r2 e.
             parseEdge isDef
                (if isEdge p then assign [] p
                 else assign (assign [] p) [(''id'', JStr (getEdgeId p))]) None d = Inr e
           \<and> isEdge e \<and> connection_matches p e
           \<and> field e ''id'' = JStr (if has p ''id'' then toStr (field p ''id'') else getEdgeId p)
           \<and> field e ''source'' = field p ''source'' \<and> field e ''target'' = field p ''target''
           \<and> field e ''sourceHandle'' = field p ''sourceHandle''
           \<and> field e ''targetHandle'' = field p ''targetHandle''
           \<and> addEdge isDef p els d = Inr r1
           \<and> r1 = \<lparr>warned = [],
                    collection = (if connectionExists p els then els else els @ [e]),
                    returned = (if connectionExists p els then els else els @ [e])\<rparr>
           \<and> addEdge isDef p (returned r1) d = Inr r2
           \<and> r2 = \<lparr>warned = [], collection = returned r1, returned = returned r1\<rparr>
           \<and> length (filter (connection_matches p) (returned r2)) =
               (if connectionExists p els then length (filter (connection_matches p) els) else 1)"
proof -
  let ?e0 = "if isEdge p then assign [] p
             else assign (assign [] p) [(''id'', JStr (getEdgeId p))]"
  obtain e where pe: "parseEdge isDef ?e0 None d = Inr e"
    and e: "isEdge e" "connection_matches e = connection_matches p"
    and fid: "field e ''id'' = JStr (if has p ''id'' then toStr (field p ''id'') else getEdgeId p)"
    and fs: "field e ''source'' = field p ''source''" "field e ''target'' = field p ''target''"
      "field e ''sourceHandle'' = field p ''sourceHandle''"
      "field e ''targetHandle'' = field p ''targetHandle''"
    and add: "\<And>els. addEdge isDef p els d =
                Inr (if connectionExists e els
                     then \<lparr>warned = [], collection = els, returned = els\<rparr>
                     else \<lparr>warned = [], collection = els @ [e], returned = els @ [e]\<rparr>)"
    using addEdge_edge [OF assms, of isDef] by blast
  have self: "connection_matches p e"
    using connection_matches_self [OF e(1)] by (simp add: e(2))
  have ce: "\<And>xs. connectionExists e xs = connectionExists p xs"
    by (simp add: connectionExists_def e(2))
  let ?res = "if connectionExists p els then els else els @ [e]"
  have first: "addEdge isDef p els d = Inr \<lparr>warned = [], collection = ?res, returned = ?res\<rparr>"
    by (simp add: add ce)
  have again: "connectionExists p ?res"
    using self by (simp add: connectionExists_def)
  have second: "addEdge isDef p ?res d = Inr \<lparr>warned = [], collection = ?res, returned = ?res\<rparr>"
    using again by (simp only: add ce if_True)
  have count: "length (filter (connection_matches p) ?res) =
               (if connectionExists p els then length (filter (connection_matches p) els) else 1)"
  proof (cases "connectionExists p els")
    case True
    then show ?thesis by simp
  next
    case False
    then have "filter (connection_matches p) els = []"
      by (simp add: connectionExists_def list_ex_iff filter_empty_conv)
    with False self show ?thesis by simp
  qed
  show ?thesis
  proof (intro exI conjI)
    show "parseEdge isDef ?e0 None d = Inr e" by (rule pe)
    show "isEdge e" by (rule e(1))
    show "connection_matches p e" by (rule self)
    show "field e ''id'' = JStr (if has p ''id'' then toStr (field p ''id'') else getEdgeId p)"
      by (rule fid)
    show "field e ''source'' = field p ''source''" by (rule fs(1))
    show "field e ''target'' = field p ''target''" by (rule fs(2))
    show "field e ''sourceHandle'' = field p ''sourceHandle''" by (rule fs(3))
    show "field e ''targetHandle'' = field p ''targetHandle''" by (rule fs(4))
    show "addEdge isDef p els d = Inr \<lparr>warned = [], collection = ?res, returned = ?res\<rparr>"
      by (rule first)
    show "\<lparr>warned = [], collection = ?res, returned = ?res\<rparr> =
          \<lparr>warned = [], collection = ?res, returned = ?res\<rparr>" by (rule refl)
    show "addEdge isDef p (returned \<lparr>warned = [], collection = ?res, returned = ?res\<rparr>) d =
          Inr \<lparr>warned = [], collection = ?res, returned = ?res\<rparr>"
      using second by simp
    show "\<lparr>warned = [], collection = ?res, returned = ?res\<rparr> =
          \<lparr>warned = [], collection = returned \<lparr>warned = [], collection = ?res, returned = ?res\<rparr>,
           returned = returned \<lparr>warned = [], collection = ?res, returned = ?res\<rparr>\<rparr>"
      by simp
    show "length (filter (connection_matches p)
            (returned \<lparr>warned = [], collection = ?res, returned = ?res\<rparr>)) =
          (if connectionExists p els then length (filter (connection_matches p) els) else 1)"
      using count by simp
  qed
qed

theorem addEdge_idempotent_witness:
  "wf_obj conn_AB \<and> \<not> falsy (field conn_AB ''source'') \<and> \<not> falsy (field conn_AB ''target'')
   \<and> defaults_omit_handles None \<and> \<not> connectionExists conn_AB []
   \<and> connectionExists conn_AB [node_with_parent, edge_AB]
   \<and> length (returned (projr (addEdge isDef_typeof conn_AB [] None))) = 1
   \<and> field (hd (returned (projr (addEdge isDef_typeof conn_AB [] None)))) ''id'' = JStr ''vueflow__edge-A-B''
   \<and> field (hd (returned (projr (addEdge isDef_typeof conn_AB [] None)))) ''source'' = JStr ''A''
   \<and> addEdge isDef_typeof conn_AB (returned (projr (addEdge isDef_typeof conn_AB [] None))) None
       = Inr \<lparr>warned = [], collection = returned (projr (addEdge isDef_typeof conn_AB [] None)),
              returned = returned (projr (addEdge isDef_typeof conn_AB [] None))\<rparr>
   \<and> length (filter (connection_matches conn_AB)
         (returned (projr (addEdge isDef_typeof conn_AB [] None)))) = 1
   \<and> addEdge isDef_typeof conn_AB [node_with_parent, edge_AB] None
       = Inr \<lparr>warned = [], collection = [node_with_parent, edge_AB],
              returned = [node_with_parent, edge_AB]\<rparr>"
proof -
  have h1: "wf_obj conn_AB" by (simp add: wf_obj_def conn_AB_def)
  have h2: "\<not> falsy (field conn_AB ''source'')" by (simp add: field_def conn_AB_def)
  have h3: "\<not> falsy (field conn_AB ''target'')" by (simp add: field_def conn_AB_def)
  have h4: "has conn_AB ''id'' \<Longrightarrow> \<not> is_nullish (field conn_AB ''id'')"
    by (simp add: has_def conn_AB_def)
  have h5: "defaults_omit_handles None" by (simp add: defaults_omit_handles_def)
  have h6: "\<not> connectionExists conn_AB []" by (simp add: connectionExists_def)
  have h7: "connectionExists conn_AB [node_with_parent, edge_AB]"
    by (simp add: connectionExists_def connection_matches_def conn_AB_def edge_AB_def node_with_parent_def
        isEdge_def has_def field_def strict_eq_def)
  have noid: "\<not> has conn_AB ''id''" by (simp add: has_def conn_AB_def)
  have gid: "getEdgeId conn_AB = ''vueflow__edge-A-B''"
    by (simp add: getEdgeId_def conn_AB_def field_def)
  have sA: "field conn_AB ''source'' = JStr ''A''" by (simp add: conn_AB_def field_def)
  from addEdge_idempotent [OF h1 h2 h3 h4 h5, of isDef_typeof "[]"]
  obtain r1 r2 e where r: "field e ''id'' = JStr (if has conn_AB ''id'' then toStr (field conn_AB ''id'')
                                                   else getEdgeId conn_AB)"
      "field e ''source'' = field conn_AB ''source''"
      "addEdge isDef_typeof conn_AB [] None = Inr r1"
      "r1 = \<lparr>warned = [],
             collection = (if connectionExists conn_AB [] then [] else [] @ [e]),
             returned = (if connectionExists conn_AB [] then [] else [] @ [e])\<rparr>"
      "addEdge isDef_typeof conn_AB (returned r1) None = Inr r2"
      "r2 = \<lparr>warned = [], collection = returned r1, returned = returned r1\<rparr>"
      "length (filter (connection_matches conn_AB) (returned r2)) =
         (if connectionExists conn_AB [] then length (filter (connection_matches conn_AB) []) else 1)"
    by blast
  from r(4) h6 have ret: "returned r1 = [e]" by simp
  from r(6,7) h6 have cnt: "length (filter (connection_matches conn_AB) (returned r1)) = 1" by simp
  from addEdge_idempotent [OF h1 h2 h3 h4 h5, of isDef_typeof "[node_with_parent, edge_AB]"]
  obtain q1 q2 e' where q: "addEdge isDef_typeof conn_AB [node_with_parent, edge_AB] None = Inr q1"
      "q1 = \<lparr>warned = [],
             collection = (if connectionExists conn_AB [node_with_parent, edge_AB]
                           then [node_with_parent, edge_AB] else [node_with_parent, edge_AB] @ [e']),
             returned = (if connectionExists conn_AB [node_with_parent, edge_AB]
                           then [node_with_parent, edge_AB] else [node_with_parent, edge_AB] @ [e'])\<rparr>"
    by blast
  from q h7 have unchanged: "addEdge isDef_typeof conn_AB [node_with_parent, edge_AB] None
       = Inr \<lparr>warned = [], collection = [node_with_parent, edge_AB],
              returned = [node_with_parent, edge_AB]\<rparr>"
    by simp
  from r(1,2) noid gid sA have fe: "field e ''id'' = JStr ''vueflow__edge-A-B''" "field e ''source'' = JStr ''A''"
    by simp_all
  from r(3,5,6) ret cnt fe unchanged h1 h2 h3 h5 h6 h7 show ?thesis by simp
qed

text \<open>
  C4 (on the code): updating an edge to the connection it already has. The replacement gets the
  identifier derived from the new connection, which here is the old identifier, and the final
  filter on the old identifier removes the replacement with the old edge: an edge is removed
  and none is inserted.
\<close>

theorem updateEdge_same_connection_drops_edge:
  "updateEdge edge_AB conn_AB [edge_AB] =
     \<lparr>warned = [],
      collection = [[(''id'', JStr ''vueflow__edge-A-B''), (''source'', JStr ''A''), (''target'', JStr ''B''),
                     (''sourceHandle'', JUndefined), (''targetHandle'', JUndefined)]],
      returned = []\<rparr>"
  by (simp add: updateEdge_def edge_AB_def conn_AB_def field_def isEdge_def has_def assign_def Let_def
      getEdgeId_def strict_eq_def splice1_def)

text \<open>
  When the identifier derived from the new connection differs from the old one, the update
  does replace the old edge in place: the first edge with the old identifier gives way to the
  replacement, which carries the new connection and the old edge's other fields, and every
  other element with the old identifier is filtered out of the returned array.
\<close>

lemma find_split:
  assumes "find P xs = Some y"
  shows "\<exists>pre post. xs = pre @ y # post \<and> P y \<and> (\<forall>e\<in>set pre. \<not> P e)"
proof -
  from assms obtain i where i: "i < length xs" "P (xs ! i)" "y = xs ! i" "\<forall>j<i. \<not> P (xs ! j)"
    by (auto simp: find_Some_iff)
  have "xs = take i xs @ y # drop (Suc i) xs"
    using i(1,3) by (simp add: id_take_nth_drop)
  moreover have "\<forall>e\<in>set (take i xs). \<not> P e"
    using i(1,4) by (auto simp: in_set_conv_nth)
  ultimately show ?thesis using i(2,3) by blast
qed

lemma indexOf_first:
  "P y \<Longrightarrow> \<forall>e\<in>set pre. \<not> P e \<Longrightarrow> indexOf y (pre @ y # post) = int (length pre)"
  by (induction pre) (auto simp: Let_def)

lemma splice1_at: "splice1 (int (length pre)) item (pre @ y # post) = pre @ item # post"
  by (simp add: splice1_def Let_def)

lemma updateEdge_replaces:
  assumes ok: "\<not> falsy (field newConnection ''source'')" "\<not> falsy (field newConnection ''target'')"
    and found: "find (\<lambda>e. isEdge e \<and> field e ''id'' = field oldEdge ''id'') elements = Some foundEdge"
    and fresh: "JStr (getEdgeId newConnection) \<noteq> field oldEdge ''id''"
    and wf: "wf_obj oldEdge"
  shows "\<exists>pre post edge.
           elements = pre @ foundEdge # post
         \<and> (\<forall>e\<in>set pre. \<not> (isEdge e \<and> field e ''id'' = field oldEdge ''id''))
         \<and> field edge ''id'' = JStr (getEdgeId newConnection)
         \<and> (\<forall>k\<in>{''source'', ''target'', ''sourceHandle'', ''targetHandle''}.
               field edge k = field newConnection k)
         \<and> (\<forall>k. k \<notin> {''id'', ''source'', ''target'', ''sourceHandle'', ''targetHandle''}
               \<longrightarrow> field edge k = field oldEdge k)
         \<and> updateEdge oldEdge newConnection elements =
             \<lparr>warned = [], collection = pre @ edge # post,
              returned = filter (\<lambda>e. field e ''id'' \<noteq> field oldEdge ''id'') pre
                         @ edge # filter (\<lambda>e. field e ''id'' \<noteq> field oldEdge ''id'') post\<rparr>"
proof -
  let ?P = "\<lambda>e. isEdge e \<and> field e ''id'' = field oldEdge ''id''"
  let ?lit = "[(''id'', JStr (getEdgeId newConnection)),
               (''source'', field newConnection ''source''),
               (''target'', field newConnection ''target''),
               (''sourceHandle'', field newConnection ''sourceHandle''),
               (''targetHandle'', field newConnection ''targetHandle'')]"
  let ?edge = "assign (assign [] oldEdge) ?lit"
  from find_split [OF found] obtain pre post where
    sp: "elements = pre @ foundEdge # post" "?P foundEdge" "\<forall>e\<in>set pre. \<not> ?P e"
    by blast
  have wl: "wf_obj ?lit" by (simp add: wf_obj_def)
  have hl: "\<And>k. has ?lit k = (k \<in> {''id'', ''source'', ''target'', ''sourceHandle'', ''targetHandle''})"
    by (auto simp: has_def)
  have fe: "\<And>k. field ?edge k = (if has ?lit k then field ?lit k else field oldEdge k)"
    by (simp add: field_assign_present [OF wl] field_assign_absent field_copy [OF wf])
  have id: "field ?edge ''id'' = JStr (getEdgeId newConnection)"
    by (simp add: fe hl) (simp add: field_def)
  have conn: "\<forall>k\<in>{''source'', ''target'', ''sourceHandle'', ''targetHandle''}.
               field ?edge k = field newConnection k"
    by (simp add: fe hl) (simp add: field_def)
  have rest: "\<forall>k. k \<notin> {''id'', ''source'', ''target'', ''sourceHandle'', ''targetHandle''}
               \<longrightarrow> field ?edge k = field oldEdge k"
    by (simp add: fe hl)
  have idx: "indexOf foundEdge elements = int (length pre)"
    unfolding sp(1) by (rule indexOf_first [where P = ?P, OF sp(2,3)])
  have spl: "splice1 (indexOf foundEdge elements) ?edge elements = pre @ ?edge # post"
    unfolding idx unfolding sp(1) by (rule splice1_at)
  have keep: "field ?edge ''id'' \<noteq> field oldEdge ''id''"
    using fresh by (simp add: id)
  have drop_old: "field foundEdge ''id'' = field oldEdge ''id''"
    using sp(2) by simp
  have "updateEdge oldEdge newConnection elements =
             \<lparr>warned = [], collection = pre @ ?edge # post,
              returned = filter (\<lambda>e. field e ''id'' \<noteq> field oldEdge ''id'') pre
                         @ ?edge # filter (\<lambda>e. field e ''id'' \<noteq> field oldEdge ''id'') post\<rparr>"
    using ok found keep
    by (simp add: updateEdge_def strict_eq_def Let_def spl)
  with sp(1,3) id conn rest show ?thesis by blast
qed

subsection \<open>Graph normalizer\<close>

text \<open>
  C8 (as stated): every field explicitly present on the raw description ends up with raw's
  value. parseNode writes its \<^verbatim>\<open>parentNode\<close> argument last, over whatever the raw
  node says: a raw node with \<^verbatim>\<open>parentNode: "p"\<close> parsed without that argument comes out
  with \<^verbatim>\<open>parentNode\<close> undefined.
\<close>

theorem parseNode_parent_counterexample:
  "has node_with_parent ''parentNode''
   \<and> field node_with_parent ''parentNode'' = JStr ''p''
   \<and> \<not> isl (parseNode isDef_typeof node_with_parent None None)
   \<and> field (projr (parseNode isDef_typeof node_with_parent None None)) ''parentNode'' = JUndefined"
  by (simp add: node_with_parent_def parseNode_def has_def field_def assign_def Let_def toString_def)

text \<open>
  C8 (amended): parseNode and parseEdge return an entity whose id is raw's id in string form
  and, for nodes, whose \<^verbatim>\<open>parentNode\<close> is the parentNode argument. Every other field
  explicitly present on raw has raw's value. Every other field absent from raw keeps the
  value of the existing entity when one is given (so dimensions, handle bounds and computed
  position survive), and no key of the existing entity is lost. The defaults are only used
  when there is no existing edge; then a field absent from raw and present in the defaults
  has the default's value.
\<close>

theorem parse_merge_precedence:
  assumes "wf_obj node" and "\<not> is_nullish (field node ''id'')"
    and "wf_obj edge" and "\<not> is_nullish (field edge ''id'')"
    and "\<not> is_nullish (field edge ''source'')" and "\<not> is_nullish (field edge ''target'')"
  shows "(\<exists>g. parseNode isDef node existingNode parentNode = Inr g
            \<and> field g ''id'' = JStr (toStr (field node ''id''))
            \<and> field g ''parentNode'' = (case parentNode of None \<Rightarrow> JUndefined | Some p \<Rightarrow> JStr p)
            \<and> (\<forall>k. k \<noteq> ''id'' \<and> k \<noteq> ''parentNode'' \<and> has node k \<longrightarrow> field g k = field node k)
            \<and> (\<forall>k ex. k \<noteq> ''id'' \<and> k \<noteq> ''parentNode'' \<and> \<not> has node k \<and> existingNode = Some ex
                  \<longrightarrow> field g k = field ex k)
            \<and> (\<forall>k ex. existingNode = Some ex \<and> has ex k \<longrightarrow> has g k))
       \<and> (\<exists>g. parseEdge isDef edge existingEdge defaultEdgeOptions = Inr g
            \<and> field g ''id'' = JStr (toStr (field edge ''id''))
            \<and> (\<forall>k. k \<noteq> ''id'' \<and> has edge k \<longrightarrow> field g k = field edge k)
            \<and> (\<forall>k ex. k \<noteq> ''id'' \<and> \<not> has edge k \<and> existingEdge = Some ex \<longrightarrow> field g k = field ex k)
            \<and> (\<forall>k ex. existingEdge = Some ex \<and> has ex k \<longrightarrow> has g k)
            \<and> (\<forall>k d. k \<noteq> ''id'' \<and> \<not> has edge k \<and> existingEdge = None
                  \<and> defaultEdgeOptions = Some d \<and> wf_obj d \<and> has d k \<longrightarrow> field g k = field d k))"
proof
  let ?ov = "[(''id'', JStr (toStr (field node ''id''))),
              (''parentNode'', case parentNode of None \<Rightarrow> JUndefined | Some p \<Rightarrow> JStr p)]"
  have wf: "wf_obj ?ov" by (simp add: wf_obj_def)
  have hov: "\<And>k. has ?ov k = (k = ''id'' \<or> k = ''parentNode'')" by (auto simp: has_def)
  obtain base where g: "parseNode isDef node existingNode parentNode = Inr (assign (assign base node) ?ov)"
    and base: "\<And>ex. existingNode = Some ex \<Longrightarrow> base = ex"
    using assms(2) by (cases existingNode) (simp_all add: parseNode_def toString_defined Let_def)
  have f: "\<And>k. field (assign (assign base node) ?ov) k =
           (if has ?ov k then field ?ov k else if has node k then field node k else field base k)"
    by (rule field_overlay [OF assms(1) wf])
  show "\<exists>g. parseNode isDef node existingNode parentNode = Inr g
            \<and> field g ''id'' = JStr (toStr (field node ''id''))
            \<and> field g ''parentNode'' = (case parentNode of None \<Rightarrow> JUndefined | Some p \<Rightarrow> JStr p)
            \<and> (\<forall>k. k \<noteq> ''id'' \<and> k \<noteq> ''parentNode'' \<and> has node k \<longrightarrow> field g k = field node k)
            \<and> (\<forall>k ex. k \<noteq> ''id'' \<and> k \<noteq> ''parentNode'' \<and> \<not> has node k \<and> existingNode = Some ex
                  \<longrightarrow> field g k = field ex k)
            \<and> (\<forall>k ex. existingNode = Some ex \<and> has ex k \<longrightarrow> has g k)"
  proof (intro exI conjI allI impI)
    show "parseNode isDef node existingNode parentNode = Inr (assign (assign base node) ?ov)"
      by (rule g)
    show "field (assign (assign base node) ?ov) ''id'' = JStr (toStr (field node ''id''))"
      by (simp add: f hov) (simp add: field_def)
    show "field (assign (assign base node) ?ov) ''parentNode''
            = (case parentNode of None \<Rightarrow> JUndefined | Some p \<Rightarrow> JStr p)"
      by (simp add: f hov) (simp add: field_def)
  next
    fix k assume "k \<noteq> ''id'' \<and> k \<noteq> ''parentNode'' \<and> has node k"
    then show "field (assign (assign base node) ?ov) k = field node k"
      by (simp add: f hov)
  next
    fix k ex assume a: "k \<noteq> ''id'' \<and> k \<noteq> ''parentNode'' \<and> \<not> has node k \<and> existingNode = Some ex"
    then have "field (assign (assign base node) ?ov) k = field base k"
      by (simp add: f hov)
    moreover from a have "base = ex" by (simp add: base)
    ultimately show "field (assign (assign base node) ?ov) k = field ex k"
      by simp
  next
    fix k ex assume a: "existingNode = Some ex \<and> has ex k"
    then have "base = ex" by (simp add: base)
    with a have "has base k" by simp
    then show "has (assign (assign base node) ?ov) k"
      by (simp add: has_overlay)
  qed
next
  let ?ov = "[(''id'', JStr (toStr (field edge ''id'')))]"
  have wf: "wf_obj ?ov" by (simp add: wf_obj_def)
  have hov: "\<And>k. has ?ov k = (k = ''id'')" by (auto simp: has_def)
  obtain lit where g: "parseEdge isDef edge existingEdge defaultEdgeOptions =
        Inr (assign (assign (case existingEdge of
                               None \<Rightarrow> assign lit (case defaultEdgeOptions of None \<Rightarrow> [] | Some d \<Rightarrow> d)
                             | Some ex \<Rightarrow> ex) edge) ?ov)"
    using assms(4-6) by (simp add: parseEdge_def toString_defined Let_def)
  define base where "base = (case existingEdge of
                 None \<Rightarrow> assign lit (case defaultEdgeOptions of None \<Rightarrow> [] | Some d \<Rightarrow> d)
               | Some ex \<Rightarrow> ex)"
  have b1: "\<And>ex. existingEdge = Some ex \<Longrightarrow> base = ex"
    by (simp add: base_def)
  have b2: "\<And>d k. existingEdge = None \<Longrightarrow> defaultEdgeOptions = Some d \<Longrightarrow> wf_obj d \<Longrightarrow> has d k
              \<Longrightarrow> field base k = field d k"
    by (simp add: base_def field_assign_present)
  have g': "parseEdge isDef edge existingEdge defaultEdgeOptions = Inr (assign (assign base edge) ?ov)"
    by (simp only: g base_def)
  have f: "\<And>k. field (assign (assign base edge) ?ov) k =
           (if has ?ov k then field ?ov k else if has edge k then field edge k else field base k)"
    by (rule field_overlay [OF assms(3) wf])
  show "\<exists>g. parseEdge isDef edge existingEdge defaultEdgeOptions = Inr g
            \<and> field g ''id'' = JStr (toStr (field edge ''id''))
            \<and> (\<forall>k. k \<noteq> ''id'' \<and> has edge k \<longrightarrow> field g k = field edge k)
            \<and> (\<forall>k ex. k \<noteq> ''id'' \<and> \<not> has edge k \<and> existingEdge = Some ex \<longrightarrow> field g k = field ex k)
            \<and> (\<forall>k ex. existingEdge = Some ex \<and> has ex k \<longrightarrow> has g k)
            \<and> (\<forall>k d. k \<noteq> ''id'' \<and> \<not> has edge k \<and> existingEdge = None
                  \<and> defaultEdgeOptions = Some d \<and> wf_obj d \<and> has d k \<longrightarrow> field g k = field d k)"
  proof (intro exI conjI allI impI)
    show "parseEdge isDef edge existingEdge defaultEdgeOptions = Inr (assign (assign base edge) ?ov)"
      by (rule g')
    show "field (assign (assign base edge) ?ov) ''id'' = JStr (toStr (field edge ''id''))"
      by (simp add: f hov) (simp add: field_def)
  next
    fix k assume "k \<noteq> ''id'' \<and> has edge k"
    then show "field (assign (assign base edge) ?ov) k = field edge k"
      by (simp add: f hov)
  next
    fix k ex assume a: "k \<noteq> ''id'' \<and> \<not> has edge k \<and> existingEdge = Some ex"
    then have "field (assign (assign base edge) ?ov) k = field base k"
      by (simp add: f hov)
    moreover from a have "base = ex" by (simp add: b1)
    ultimately show "field (assign (assign base edge) ?ov) k = field ex k"
      by simp
  next
    fix k ex assume a: "existingEdge = Some ex \<and> has ex k"
    then have "base = ex" by (simp add: b1)
    with a have "has base k" by simp
    then show "has (assign (assign base edge) ?ov) k"
      by (simp add: has_overlay)
  next
    fix k d assume a: "k \<noteq> ''id'' \<and> \<not> has edge k \<and> existingEdge = None
                  \<and> defaultEdgeOptions = Some d \<and> wf_obj d \<and> has d k"
    then have "field (assign (assign base edge) ?ov) k = field base k"
      by (simp add: f hov)
    moreover from a have "field base k = field d k" by (simp add: b2)
    ultimately show "field (assign (assign base edge) ?ov) k = field d k"
      by simp
  qed
qed

theorem parse_merge_precedence_witness:
  "wf_obj node_with_parent \<and> \<not> is_nullish (field node_with_parent ''id'')
   \<and> wf_obj edge_AB \<and> \<not> is_nullish (field edge_AB ''id'')
   \<and> \<not> is_nullish (field edge_AB ''source'') \<and> \<not> is_nullish (field edge_AB ''target'')
   \<and> has node_with_parent ''position'' \<and> \<not> has node_with_parent ''dimensions''
   \<and> has node_measured ''dimensions'' \<and> \<not> has edge_AB ''label'' \<and> has edge_styled ''label''
   \<and> field (projr (parseNode isDef_typeof node_with_parent (Some node_measured) (Some ''q''))) ''position''
        = JObj [(''x'', JNum 0), (''y'', JNum 0)]
   \<and> field (projr (parseNode isDef_typeof node_with_parent (Some node_measured) (Some ''q''))) ''dimensions''
        = JObj [(''width'', JNum 30), (''height'', JNum 20)]
   \<and> field (projr (parseNode isDef_typeof node_with_parent (Some node_measured) (Some ''q''))) ''parentNode''
        = JStr ''q''
   \<and> field (projr (parseEdge isDef_typeof edge_AB (Some edge_styled) None)) ''source'' = JStr ''A''
   \<and> field (projr (parseEdge isDef_typeof edge_AB (Some edge_styled) None)) ''label'' = JStr ''old''"
proof -
  have h1: "wf_obj node_with_parent" by (simp add: wf_obj_def node_with_parent_def)
  have h2: "\<not> is_nullish (field node_with_parent ''id'')"
    by (simp add: is_nullish_def field_def node_with_parent_def)
  have h3: "wf_obj edge_AB" by (simp add: wf_obj_def edge_AB_def)
  have h4: "\<not> is_nullish (field edge_AB ''id'')" by (simp add: is_nullish_def field_def edge_AB_def)
  have h5: "\<not> is_nullish (field edge_AB ''source'')" by (simp add: is_nullish_def field_def edge_AB_def)
  have h6: "\<not> is_nullish (field edge_AB ''target'')" by (simp add: is_nullish_def field_def edge_AB_def)
  have p: "has node_with_parent ''position''" "\<not> has node_with_parent ''dimensions''"
      "has node_measured ''dimensions''" "\<not> has edge_AB ''label''" "has edge_styled ''label''"
      "has edge_AB ''source''"
    by (simp_all add: has_def node_with_parent_def node_measured_def edge_AB_def edge_styled_def)
  from parse_merge_precedence [OF h1 h2 h3 h4 h5 h6, of isDef_typeof "Some node_measured" "Some ''q''"
      "Some edge_styled" None]
  obtain g g' where g: "parseNode isDef_typeof node_with_parent (Some node_measured) (Some ''q'') = Inr g"
      "field g ''parentNode'' = JStr ''q''"
      "\<forall>k. k \<noteq> ''id'' \<and> k \<noteq> ''parentNode'' \<and> has node_with_parent k
            \<longrightarrow> field g k = field node_with_parent k"
      "\<forall>k ex. k \<noteq> ''id'' \<and> k \<noteq> ''parentNode'' \<and> \<not> has node_with_parent k
            \<and> Some node_measured = Some ex \<longrightarrow> field g k = field ex k"
    and g': "parseEdge isDef_typeof edge_AB (Some edge_styled) None = Inr g'"
      "\<forall>k. k \<noteq> ''id'' \<and> has edge_AB k \<longrightarrow> field g' k = field edge_AB k"
      "\<forall>k ex. k \<noteq> ''id'' \<and> \<not> has edge_AB k \<and> Some edge_styled = Some ex
            \<longrightarrow> field g' k = field ex k"
    by auto
  from g(3) p(1) have "field g ''position'' = field node_with_parent ''position''" by simp
  moreover from g(4) p(2) have "field g ''dimensions'' = field node_measured ''dimensions''" by simp
  moreover from g'(2) p(6) have "field g' ''source'' = field edge_AB ''source''" by simp
  moreover from g'(3) p(4) have "field g' ''label'' = field edge_styled ''label''" by simp
  ultimately show ?thesis
    using g(1,2) g'(1) h1 h2 h3 h4 h5 h6 p
    by (simp add: field_def node_with_parent_def node_measured_def edge_AB_def edge_styled_def)
qed

text \<open>
  C9 (on the code): an edge given with numeric identifiers. The id of the result is the string
  \<^verbatim>\<open>"1"\<close>, but source and target are still the numbers 2 and 3: the strings computed
  for the initial state are overwritten when the raw edge is assigned over it, and only the
  id is normalized again afterwards.
\<close>

theorem parseEdge_keeps_numeric_source_and_target:
  "\<not> isl (parseEdge isDef_typeof edge_numeric None None)
   \<and> field (projr (parseEdge isDef_typeof edge_numeric None None)) ''id'' = JStr ''1''
   \<and> field (projr (parseEdge isDef_typeof edge_numeric None None)) ''source'' = JNum 2
   \<and> field (projr (parseEdge isDef_typeof edge_numeric None None)) ''target'' = JNum 3"
  by (simp add: edge_numeric_def parseEdge_def field_def assign_def Let_def toString_def show_int_def
      show_nat.simps opt_toString_def opt_field_def isDef_typeof_def)

subsection \<open>Graph query layer\<close>

text \<open>
  C10: in the two-argument call shape, getOutgoers and getIncomers return one entry per edge
  whose source (respectively target) is the subject, so the length of the result is the number
  of matching edges; the entry of an edge whose counterpart node is not in the list is
  \<^verbatim>\<open>undefined\<close>, at the position of that edge among the matching edges. The
  three-argument shape filters the node list and returns no \<^verbatim>\<open>undefined\<close> entry.
\<close>

theorem two_argument_shape_yields_undefined:
  "length (getOutgoers (Args2 n els))
      = length (filter (\<lambda>el. isEdge el \<and> field el ''source'' = subject_id n) els)
   \<and> (\<forall>i < length (filter (\<lambda>el. isEdge el \<and> field el ''source'' = subject_id n) els).
        \<not> list_ex (\<lambda>el. isNode el \<and> field el ''id''
              = field (filter (\<lambda>el. isEdge el \<and> field el ''source'' = subject_id n) els ! i) ''target'') els
        \<longrightarrow> getOutgoers (Args2 n els) ! i = None)
   \<and> length (getIncomers (Args2 n els))
      = length (filter (\<lambda>el. isEdge el \<and> field el ''target'' = subject_id n) els)
   \<and> (\<forall>i < length (filter (\<lambda>el. isEdge el \<and> field el ''target'' = subject_id n) els).
        \<not> list_ex (\<lambda>el. isNode el \<and> field el ''id''
              = field (filter (\<lambda>el. isEdge el \<and> field el ''target'' = subject_id n) els ! i) ''source'') els
        \<longrightarrow> getIncomers (Args2 n els) ! i = None)
   \<and> None \<notin> set (getOutgoers (Args3 n nodes edges))
   \<and> None \<notin> set (getIncomers (Args3 n nodes edges))
   \<and> set (getOutgoers (Args3 n nodes edges)) \<subseteq> Some ` set nodes
   \<and> set (getIncomers (Args3 n nodes edges)) \<subseteq> Some ` set nodes"
  by (auto simp: Let_def strict_eq_def find_None_iff list_ex_iff getConnectedElements_def)

theorem two_argument_shape_yields_undefined_witness:
  "getOutgoers (Args2 (ById ''A'') dangling_elements) = [None]
   \<and> length (filter (\<lambda>el. isEdge el \<and> field el ''source'' = JStr ''A'') dangling_elements) = 1
   \<and> getIncomers (Args2 (ById ''B'') dangling_elements)
        = [Some [(''id'', JStr ''A''), (''position'', JObj [(''x'', JNum 0), (''y'', JNum 0)])]]
   \<and> getOutgoers (Args3 (ById ''A'') (filter isNode dangling_elements) (filter isEdge dangling_elements)) = []"
  using two_argument_shape_yields_undefined [of "ById ''A''" dangling_elements "filter isNode dangling_elements"
      "filter isEdge dangling_elements"]
  by (simp add: dangling_elements_def isEdge_def isNode_def has_def field_def strict_eq_def Let_def
      getConnectedElements_def)

lemma isParentSelected_selected:
  "ancestor findNode node (Suc k) = Some a \<Longrightarrow> \<not> falsy (field a ''selected'')
    \<Longrightarrow> isParentSelected node findNode = Some True"
proof (induction k arbitrary: node)
  case 0
  then show ?case
    by (subst isParentSelected.simps) (auto split: if_splits option.splits)
next
  case (Suc k)
  from Suc.prems(1) obtain parent where p: "\<not> falsy (field node ''parentNode'')"
      "findNode (field node ''parentNode'') = Some parent" "ancestor findNode parent (Suc k) = Some a"
    by (subst (asm) ancestor.simps) (auto split: if_splits option.splits)
  from Suc.IH [OF p(3) Suc.prems(2)] p(1,2) show ?case
    by (subst isParentSelected.simps) simp
qed

lemma isParentSelected_exhausted:
  "ancestor findNode node (Suc n) = None
    \<Longrightarrow> (\<And>k a. ancestor findNode node (Suc k) = Some a \<Longrightarrow> falsy (field a ''selected''))
    \<Longrightarrow> isParentSelected node findNode = Some False"
proof (induction n arbitrary: node)
  case 0
  then show ?case
    by (subst isParentSelected.simps) (auto split: if_splits option.splits)
next
  case (Suc n)
  show ?case
  proof (cases "falsy (field node ''parentNode'')")
    case True
    then show ?thesis by (subst isParentSelected.simps) simp
  next
    case False
    show ?thesis
    proof (cases "findNode (field node ''parentNode'')")
      case None
      with False show ?thesis by (subst isParentSelected.simps) simp
    next
      case (Some parent)
      with False Suc.prems(1) have end': "ancestor findNode parent (Suc n) = None"
        by (subst (asm) ancestor.simps) simp
      have anc: "\<And>k. ancestor findNode node (Suc k) = ancestor findNode parent k"
        using False Some by simp
      have "falsy (field parent ''selected'')"
        using Suc.prems(2) [of 0 parent] anc [of 0] by simp
      moreover have "isParentSelected parent findNode = Some False"
      proof (rule Suc.IH [OF end'])
        fix k a assume "ancestor findNode parent (Suc k) = Some a"
        then show "falsy (field a ''selected'')"
          using Suc.prems(2) [of "Suc k" a] anc [of "Suc k"] by simp
      qed
      ultimately show ?thesis
        using False Some by (subst isParentSelected.simps) simp
    qed
  qed
qed

lemma isParentSelected_returns:
  assumes "isParentSelected node findNode = Some b"
  shows "(\<exists>k a. ancestor findNode node (Suc k) = Some a \<and> \<not> falsy (field a ''selected''))
     \<or> (\<exists>n. ancestor findNode node (Suc n) = None)"
proof (rule isParentSelected.raw_induct
    [where P = "\<lambda>node findNode b.
         (\<exists>k a. ancestor findNode node (Suc k) = Some a \<and> \<not> falsy (field a ''selected''))
         \<or> (\<exists>n. ancestor findNode node (Suc n) = None)", OF _ assms])
  fix ips :: "obj \<Rightarrow> (jsval \<Rightarrow> obj option) \<Rightarrow> bool option"
  fix node findNode b
  assume 1: "\<And>node findNode b. ips node findNode = Some b \<Longrightarrow>
         (\<exists>k a. ancestor findNode node (Suc k) = Some a \<and> \<not> falsy (field a ''selected''))
         \<or> (\<exists>n. ancestor findNode node (Suc n) = None)"
    "(if falsy (field node ''parentNode'') then Some False
      else case findNode (field node ''parentNode'') of None \<Rightarrow> Some False
           | Some parent \<Rightarrow>
               if \<not> falsy (field parent ''selected'') then Some True
               else ips parent findNode) = Some b"
  let ?thesis = "(\<exists>k a. ancestor findNode node (Suc k) = Some a \<and> \<not> falsy (field a ''selected''))
         \<or> (\<exists>n. ancestor findNode node (Suc n) = None)"
  show ?thesis
  proof (cases "falsy (field node ''parentNode'')")
    case True
    then have "ancestor findNode node (Suc 0) = None" by simp
    then show ?thesis by blast
  next
    case False
    show ?thesis
    proof (cases "findNode (field node ''parentNode'')")
      case None
      with False have "ancestor findNode node (Suc 0) = None" by simp
      then show ?thesis by blast
    next
      case (Some parent)
      have anc: "\<And>k. ancestor findNode node (Suc k) = ancestor findNode parent k"
        using False Some by simp
      show ?thesis
      proof (cases "falsy (field parent ''selected'')")
        case sel: False
        have "ancestor findNode node (Suc 0) = Some parent" by (simp only: anc ancestor.simps(1))
        with sel show ?thesis by blast
      next
        case True
        with 1(2) False Some have "ips parent findNode = Some b" by simp
        from 1(1) [OF this] show ?thesis
        proof
          assume "\<exists>k a. ancestor findNode parent (Suc k) = Some a \<and> \<not> falsy (field a ''selected'')"
          then obtain k a where "ancestor findNode node (Suc (Suc k)) = Some a" "\<not> falsy (field a ''selected'')"
            using anc by auto
          then show ?thesis by blast
        next
          assume "\<exists>n. ancestor findNode parent (Suc n) = None"
          then obtain n where "ancestor findNode node (Suc (Suc n)) = None"
            using anc by auto
          then show ?thesis by blast
        qed
      qed
    qed
  qed
qed

lemma cyclic_ancestor:
  "ancestor cyclic_findNode node_A n \<in> {Some node_A, Some node_B}
   \<and> ancestor cyclic_findNode node_B n \<in> {Some node_A, Some node_B}"
proof (induction n)
  case 0
  show ?case by simp
next
  case (Suc n)
  have "ancestor cyclic_findNode node_A (Suc n) = ancestor cyclic_findNode node_B n"
    by (simp add: node_A_def field_def cyclic_findNode_def)
  moreover have "ancestor cyclic_findNode node_B (Suc n) = ancestor cyclic_findNode node_A n"
    by (simp add: node_B_def field_def cyclic_findNode_def)
  ultimately show ?case using Suc.IH by auto
qed

text \<open>
  C6 (as stated): isParentSelected terminates for every node and every findNode, and returns
  false on a cyclic parent chain. The code has no guard against a cycle: for two unselected
  nodes that name each other as parent, the recursion never returns (in an engine, until the
  call stack is exhausted).
\<close>

theorem isParentSelected_cycle_diverges: "isParentSelected node_A cyclic_findNode = None"
proof (cases "isParentSelected node_A cyclic_findNode")
  case None
  then show ?thesis .
next
  case (Some b)
  have sel: "falsy (field node_A ''selected'')" "falsy (field node_B ''selected'')"
    by (simp_all add: node_A_def node_B_def field_def)
  from isParentSelected_returns [OF Some] show ?thesis
  proof
    assume "\<exists>k a. ancestor cyclic_findNode node_A (Suc k) = Some a \<and> \<not> falsy (field a ''selected'')"
    then obtain k a where "ancestor cyclic_findNode node_A (Suc k) = Some a" "\<not> falsy (field a ''selected'')"
      by blast
    with cyclic_ancestor [of "Suc k"] sel show ?thesis by auto
  next
    assume "\<exists>n. ancestor cyclic_findNode node_A (Suc n) = None"
    then obtain n where "ancestor cyclic_findNode node_A (Suc n) = None" by blast
    with cyclic_ancestor [of "Suc n"] show ?thesis by auto
  qed
qed

text \<open>
  C6 (amended): isParentSelected returns true when some ancestor reached by repeated
  \<^verbatim>\<open>findNode(parentNode)\<close> is selected; it returns false when no ancestor is selected
  and the chain ends, at a node without parent identifier or with a parent that is not found;
  and when no ancestor is selected and the chain never ends (a cycle), it does not return.
\<close>

theorem isParentSelected_characterization:
  "((\<exists>k a. ancestor findNode node (Suc k) = Some a \<and> \<not> falsy (field a ''selected''))
      \<longrightarrow> isParentSelected node findNode = Some True)
   \<and> ((\<forall>k a. ancestor findNode node (Suc k) = Some a \<longrightarrow> falsy (field a ''selected''))
        \<and> (\<exists>n. ancestor findNode node (Suc n) = None)
      \<longrightarrow> isParentSelected node findNode = Some False)
   \<and> ((\<forall>k a. ancestor findNode node (Suc k) = Some a \<longrightarrow> falsy (field a ''selected''))
        \<and> (\<forall>n. ancestor findNode node (Suc n) \<noteq> None)
      \<longrightarrow> isParentSelected node findNode = None)"
proof (intro conjI impI)
  assume "\<exists>k a. ancestor findNode node (Suc k) = Some a \<and> \<not> falsy (field a ''selected'')"
  then show "isParentSelected node findNode = Some True"
    using isParentSelected_selected by blast
next
  assume "(\<forall>k a. ancestor findNode node (Suc k) = Some a \<longrightarrow> falsy (field a ''selected''))
        \<and> (\<exists>n. ancestor findNode node (Suc n) = None)"
  then show "isParentSelected node findNode = Some False"
    using isParentSelected_exhausted by blast
next
  assume a: "(\<forall>k a. ancestor findNode node (Suc k) = Some a \<longrightarrow> falsy (field a ''selected''))
        \<and> (\<forall>n. ancestor findNode node (Suc n) \<noteq> None)"
  show "isParentSelected node findNode = None"
  proof (cases "isParentSelected node findNode")
    case None
    then show ?thesis .
  next
    case (Some b)
    from isParentSelected_returns [OF Some] a show ?thesis by blast
  qed
qed

lemma tree_ancestors:
  "ancestor (tree_findNode sel) tree_C (Suc 0) = Some tree_B"
  "ancestor (tree_findNode sel) tree_C (Suc (Suc 0)) = Some (tree_A sel)"
  "ancestor (tree_findNode sel) tree_C (Suc (Suc (Suc n))) = None"
  by (simp_all add: tree_findNode_def tree_A_def tree_B_def tree_C_def field_def)

theorem isParentSelected_characterization_witness:
  "isParentSelected tree_C (tree_findNode True) = Some True
   \<and> isParentSelected tree_C (tree_findNode False) = Some False
   \<and> isParentSelected node_A cyclic_findNode = None"
proof (intro conjI)
  have "ancestor (tree_findNode True) tree_C (Suc (Suc 0)) = Some (tree_A True)"
    by (rule tree_ancestors(2))
  moreover have "\<not> falsy (field (tree_A True) ''selected'')"
    by (simp add: tree_A_def field_def)
  ultimately have "\<exists>k a. ancestor (tree_findNode True) tree_C (Suc k) = Some a \<and> \<not> falsy (field a ''selected'')"
    by blast
  with isParentSelected_characterization [of "tree_findNode True" tree_C]
  show "isParentSelected tree_C (tree_findNode True) = Some True" by blast
next
  have none: "\<forall>k a. ancestor (tree_findNode False) tree_C (Suc k) = Some a \<longrightarrow> falsy (field a ''selected'')"
  proof (intro allI impI)
    fix k a assume h: "ancestor (tree_findNode False) tree_C (Suc k) = Some a"
    consider "k = 0" | "k = Suc 0" | n where "k = Suc (Suc n)"
      by (cases k; simp) (metis old.nat.exhaust)
    then show "falsy (field a ''selected'')"
    proof cases
      case 1
      with h have "a = tree_B" by (simp only: tree_ancestors) simp
      then show ?thesis by (simp add: tree_B_def field_def)
    next
      case 2
      with h have "a = tree_A False" by (simp only: tree_ancestors) simp
      then show ?thesis by (simp add: tree_A_def field_def)
    next
      case 3
      with h show ?thesis by (simp only: tree_ancestors) simp
    qed
  qed
  have "\<exists>n. ancestor (tree_findNode False) tree_C (Suc n) = None"
    using tree_ancestors(3) [of False 0] by blast
  with none isParentSelected_characterization [of "tree_findNode False" tree_C]
  show "isParentSelected tree_C (tree_findNode False) = Some False" by blast
next
  have sel: "falsy (field node_A ''selected'')" "falsy (field node_B ''selected'')"
    by (simp_all add: node_A_def node_B_def field_def)
  have "\<forall>k a. ancestor cyclic_findNode node_A (Suc k) = Some a \<longrightarrow> falsy (field a ''selected'')"
  proof (intro allI impI)
    fix k a assume "ancestor cyclic_findNode node_A (Suc k) = Some a"
    with cyclic_ancestor [of "Suc k"] sel show "falsy (field a ''selected'')" by auto
  qed
  moreover have "\<forall>n. ancestor cyclic_findNode node_A (Suc n) \<noteq> None"
  proof
    fix n show "ancestor cyclic_findNode node_A (Suc n) \<noteq> None"
      using cyclic_ancestor [of "Suc n"] by auto
  qed
  ultimately show "isParentSelected node_A cyclic_findNode = None"
    using isParentSelected_characterization [of cyclic_findNode node_A] by blast
qed

subsection \<open>Geometry\<close>

text \<open>
  C7 (as stated): for all flag values, a node with zero or unmeasured dimensions is included.
  With \<^verbatim>\<open>excludeNonSelectableNodes\<close> set, a node that is not selectable is left out
  before its dimensions are looked at.
\<close>

theorem getNodesInside_excludes_unmeasured_unselectable:
  "notInitialized unmeasured_node
   \<and> getNodesInside [unmeasured_node] screen_rect zoom2 False True = []"
  by (simp add: unmeasured_node_def notInitialized_def dimensions_of_def getNodesInside_def)

text \<open>
  C7 (amended): for a non-zero zoom, and for a node that is selectable whenever
  \<^verbatim>\<open>excludeNonSelectableNodes\<close> is set: a node of the list with zero or unmeasured
  dimensions is in the result; a measured node is in the result, when partially is false, iff
  its overlap area with the rectangle in logical space is at least its own area, and, when
  partially is true and its own area is positive, iff the overlap area is positive.
\<close>

theorem getNodesInside_membership:
  assumes "tScale t \<noteq> 0"
    and "excludeNonSelectableNodes \<Longrightarrow> selectable node = Some True"
  shows "(notInitialized node \<longrightarrow>
            (node \<in> set (getNodesInside nodes rect t partially excludeNonSelectableNodes)
               \<longleftrightarrow> node \<in> set nodes))
    \<and> (\<not> notInitialized node \<and> \<not> partially \<longrightarrow>
            (node \<in> set (getNodesInside nodes rect t partially excludeNonSelectableNodes)
               \<longleftrightarrow> node \<in> set nodes
                   \<and> getOverlappingArea (paneRect rect t) (nodeRect node)
                       \<ge> rect_width (nodeRect node) * rect_height (nodeRect node)))
    \<and> (\<not> notInitialized node \<and> partially
           \<and> rect_width (nodeRect node) * rect_height (nodeRect node) > 0 \<longrightarrow>
            (node \<in> set (getNodesInside nodes rect t partially excludeNonSelectableNodes)
               \<longleftrightarrow> node \<in> set nodes
                   \<and> getOverlappingArea (paneRect rect t) (nodeRect node) > 0))"
proof -
  have sel: "\<not> (excludeNonSelectableNodes \<and> selectable node \<noteq> Some True)"
    using assms(2) by blast
  have mem: "node \<in> set (getNodesInside nodes rect t p excludeNonSelectableNodes)
      \<longleftrightarrow> node \<in> set nodes
          \<and> (notInitialized node
               \<or> (p \<and> getOverlappingArea (paneRect rect t) (nodeRect node) > 0)
               \<or> covers_area (getOverlappingArea (paneRect rect t) (nodeRect node)) node)" for p
    using sel by (auto simp: getNodesInside_def Let_def)
  have cov: "\<not> notInitialized node \<Longrightarrow>
      covers_area a node \<longleftrightarrow> a \<ge> rect_width (nodeRect node) * rect_height (nodeRect node)" for a
    by (auto simp: notInitialized_def covers_area_def nodeRect_def or_zero_def split: option.splits)
  show ?thesis
  proof (intro conjI impI)
    assume "notInitialized node"
    then show "node \<in> set (getNodesInside nodes rect t partially excludeNonSelectableNodes)
               \<longleftrightarrow> node \<in> set nodes"
      by (simp add: mem)
  next
    assume "\<not> notInitialized node \<and> \<not> partially"
    then show "node \<in> set (getNodesInside nodes rect t partially excludeNonSelectableNodes)
               \<longleftrightarrow> node \<in> set nodes
                   \<and> getOverlappingArea (paneRect rect t) (nodeRect node)
                       \<ge> rect_width (nodeRect node) * rect_height (nodeRect node)"
      by (simp add: mem cov)
  next
    assume a: "\<not> notInitialized node \<and> partially
           \<and> rect_width (nodeRect node) * rect_height (nodeRect node) > 0"
    then have "getOverlappingArea (paneRect rect t) (nodeRect node)
                 \<ge> rect_width (nodeRect node) * rect_height (nodeRect node)
               \<Longrightarrow> getOverlappingArea (paneRect rect t) (nodeRect node) > 0"
      by linarith
    with a show "node \<in> set (getNodesInside nodes rect t partially excludeNonSelectableNodes)
               \<longleftrightarrow> node \<in> set nodes
                   \<and> getOverlappingArea (paneRect rect t) (nodeRect node) > 0"
      by (auto simp: mem cov)
  qed
qed

lemma box_overlap: "getOverlappingArea (paneRect screen_rect zoom2) (nodeRect box_node) = 200"
  by (simp add: getOverlappingArea_def paneRect_def nodeRect_def screen_rect_def zoom2_def box_node_def
      position_of_def dimensions_of_def or_zero_def Let_def)

theorem getNodesInside_membership_witness:
  "tScale zoom2 \<noteq> 0 \<and> selectable box_node = Some True
   \<and> notInitialized unmeasured_node \<and> \<not> notInitialized box_node
   \<and> rect_width (nodeRect box_node) * rect_height (nodeRect box_node) = 200
   \<and> getOverlappingArea (paneRect screen_rect zoom2) (nodeRect box_node) = 200
   \<and> unmeasured_node \<in> set (getNodesInside [unmeasured_node, box_node] screen_rect zoom2 False False)
   \<and> box_node \<in> set (getNodesInside [unmeasured_node, box_node] screen_rect zoom2 False True)
   \<and> box_node \<in> set (getNodesInside [unmeasured_node, box_node] screen_rect zoom2 True True)"
proof -
  have z: "tScale zoom2 \<noteq> 0" by (simp add: zoom2_def)
  have s: "selectable box_node = Some True" by (simp add: box_node_def)
  have u: "notInitialized unmeasured_node"
    by (simp add: unmeasured_node_def notInitialized_def dimensions_of_def)
  have b: "\<not> notInitialized box_node"
    by (simp add: box_node_def notInitialized_def dimensions_of_def)
  have ar: "rect_width (nodeRect box_node) * rect_height (nodeRect box_node) = 200"
    by (simp add: nodeRect_def box_node_def dimensions_of_def or_zero_def)
  have "unmeasured_node \<in> set (getNodesInside [unmeasured_node, box_node] screen_rect zoom2 False False)"
    using getNodesInside_membership [OF z, of False unmeasured_node "[unmeasured_node, box_node]" screen_rect False] u
    by simp
  moreover have "box_node \<in> set (getNodesInside [unmeasured_node, box_node] screen_rect zoom2 False True)"
    using getNodesInside_membership [OF z, of True box_node "[unmeasured_node, box_node]" screen_rect False]
      s b ar box_overlap
    by simp
  moreover have "box_node \<in> set (getNodesInside [unmeasured_node, box_node] screen_rect zoom2 True True)"
    using getNodesInside_membership [OF z, of True box_node "[unmeasured_node, box_node]" screen_rect True]
      s b ar box_overlap
    by simp
  ultimately show ?thesis using z s u b ar box_overlap by simp
qed

end
